theory Spec2Isabelle
  imports Main "HOL-Library.Word"
begin

section \<open>Machine integers, faults and vectors\<close>

text \<open>
  The program is a single C++ translation unit. \<open>Uint8\<close> and \<open>Uint32\<close> are unsigned
  machine integers and wrap around; \<open>int\<close> is a 32-bit two's complement integer, kept
  as a bit pattern and read with \<open>sint\<close>, whose overflow is undefined behaviour.
  Undefined behaviour of the source is a value of the model: a \<open>fault\<close>.
\<close>

type_synonym Uint8 = "8 word"
type_synonym Uint32 = "32 word"
type_synonym cint = "32 word"

datatype fault = SignedOverflow | DivisionByZero | OutOfRange

definition and_then :: "fault + 'a \<Rightarrow> ('a \<Rightarrow> fault + 'b) \<Rightarrow> fault + 'b" where
  "and_then m f = (case m of Inl e \<Rightarrow> Inl e | Inr v \<Rightarrow> f v)"

text \<open>\<open>a + b\<close> on two \<open>int\<close>s.\<close>

definition int_add :: "cint \<Rightarrow> cint \<Rightarrow> fault + cint" where
  "int_add a b =
     (if - (2 ^ 31) \<le> sint a + sint b \<and> sint a + sint b < 2 ^ 31 then Inr (a + b)
      else Inl SignedOverflow)"

text \<open>\<open>a % b\<close> on two \<open>Uint32\<close>s.\<close>

definition uint_mod :: "Uint32 \<Rightarrow> Uint32 \<Rightarrow> fault + Uint32" where
  "uint_mod a b = (if b = 0 then Inl DivisionByZero else Inr (a mod b))"

text \<open>
  \<open>v[i]\<close> on a \<open>std::vector\<close> with an \<open>int\<close> index: the index is converted to
  \<open>size_t\<close>, so a negative one is far beyond the end. \<open>operator[]\<close> does not check.
\<close>

definition at :: "'a list \<Rightarrow> cint \<Rightarrow> fault + 'a" where
  "at v i = (if 0 \<le> sint i \<and> nat (sint i) < length v then Inr (v ! nat (sint i))
             else Inl OutOfRange)"

definition put :: "'a list \<Rightarrow> cint \<Rightarrow> 'a \<Rightarrow> fault + 'a list" where
  "put v i x = (if 0 \<le> sint i \<and> nat (sint i) < length v then Inr (v[nat (sint i) := x])
                else Inl OutOfRange)"

text \<open>
  \<open>for (int i = i0; i < N; ++i) body\<close> with \<open>N\<close> a \<open>Uint32\<close>: the comparison converts
  \<open>i\<close> to unsigned, the increment is a signed addition.
\<close>

function for_loop :: "Uint32 \<Rightarrow> (cint \<Rightarrow> 's \<Rightarrow> fault + 's) \<Rightarrow> cint \<Rightarrow> 's \<Rightarrow> fault + 's" where
  "for_loop N body i s =
     (if i < N then
        (case body i s of
           Inl e \<Rightarrow> Inl e
         | Inr s' \<Rightarrow> (case int_add i 1 of Inl e \<Rightarrow> Inl e | Inr i' \<Rightarrow> for_loop N body i' s'))
      else Inr s)"
  by pat_completeness auto
termination
proof (relation "measure (\<lambda>(N, body, i, s). unat N - unat i)")
  show "wf (measure (\<lambda>(N, body, i, s). unat N - unat i))"
    by simp
next
  fix N :: Uint32 and body :: "cint \<Rightarrow> 's \<Rightarrow> fault + 's" and i i' :: cint and s s' :: 's
  assume lt: "i < N" and inc: "int_add i 1 = Inr i'"
  from inc have i': "i' = i + 1"
    by (simp add: int_add_def split: if_splits)
  from lt have "i \<noteq> - 1"
    by (metis word_order.extremum_strict)
  then have "1 + i \<noteq> 0"
    by (simp add: add_eq_0_iff)
  then have "unat (i + 1) = Suc (unat i)"
    by (simp add: unatSuc add.commute)
  with lt i' show "((N, body, i', s'), (N, body, i, s)) \<in> measure (\<lambda>(N, body, i, s). unat N - unat i)"
    by (simp add: word_less_nat_alt)
qed

declare for_loop.simps [simp del]


section \<open>Settings\<close>

text \<open>
  The settings are compile-time constants of the source. They are a record here, so
  that the functions can be studied at every dimension; \<open>Settings\<close> is the value the
  source fixes. \<open>Columns\<close> and \<open>Rows\<close> are unsigned divisions (a zero \<open>CellSize\<close>, which
  the compiler would refuse, gives dimension 0 here).
\<close>

record settings =
  WindowWidth :: Uint32
  WindowHeight :: Uint32
  CellSize :: Uint8
  FPS :: Uint8

definition Columns :: "settings \<Rightarrow> Uint32" where
  "Columns cfg = WindowWidth cfg div ucast (CellSize cfg)"

definition Rows :: "settings \<Rightarrow> Uint32" where
  "Rows cfg = WindowHeight cfg div ucast (CellSize cfg)"

definition FrameDuration :: "settings \<Rightarrow> Uint32" where
  "FrameDuration cfg = 1000 div ucast (FPS cfg)"

definition Settings :: settings where
  "Settings = \<lparr>WindowWidth = 1600, WindowHeight = 900, CellSize = 2, FPS = 12\<rparr>"

section \<open>The grids\<close>

text \<open>
  A grid is a vector of rows of cells, 0 dead and anything else alive. The two global
  grids are named by a \<open>buffer\<close>; a function that takes a grid by reference takes the
  name, and reads and writes the store of both grids.
\<close>

type_synonym grid = "Uint8 list list"

datatype buffer = Grid | NewGrid

type_synonym store = "buffer \<Rightarrow> grid"

text \<open>The grids as the source constructs them: \<open>Rows\<close> rows of \<open>Columns\<close> zeros.\<close>

definition initial_store :: "settings \<Rightarrow> store" where
  "initial_store cfg = (\<lambda>b. replicate (unat (Rows cfg)) (replicate (unat (Columns cfg)) 0))"

text \<open>\<open>grid[r][c] = v\<close> through a reference.\<close>

definition assign_cell :: "store \<Rightarrow> buffer \<Rightarrow> cint \<Rightarrow> cint \<Rightarrow> Uint8 \<Rightarrow> fault + store" where
  "assign_cell s grid r c v =
     and_then (at (s grid) r) (\<lambda>line.
     and_then (put line c v) (\<lambda>line'.
     and_then (put (s grid) r line') (\<lambda>grid'.
     Inr (s(grid := grid')))))"

section \<open>getNeighborCount\<close>

text \<open>
  The body of the two loops over the offsets. In \<open>row + r + Rows\<close> the sum \<open>row + r\<close>
  is signed, then converted to unsigned for the addition of \<open>Rows\<close> and the remainder;
  the result is converted back to \<open>int\<close>, bit for bit. Both loops run over \<open>- 1\<close>, 0
  and 1, which the lists of the model hold; \<open>count\<close> is a \<open>Uint8\<close>.
\<close>

definition getNeighborCount_offset ::
  "settings \<Rightarrow> grid \<Rightarrow> cint \<Rightarrow> cint \<Rightarrow> cint \<Rightarrow> cint \<Rightarrow> Uint8 \<Rightarrow> fault + Uint8" where
  "getNeighborCount_offset cfg grid row column r c count =
     (if r = 0 \<and> c = 0 then Inr count
      else
        and_then (int_add row r) (\<lambda>sr.
        and_then (uint_mod (sr + Rows cfg) (Rows cfg)) (\<lambda>destRow.
        and_then (int_add column c) (\<lambda>sc.
        and_then (uint_mod (sc + Columns cfg) (Columns cfg)) (\<lambda>destColumn.
        and_then (at grid destRow) (\<lambda>line.
        and_then (at line destColumn) (\<lambda>cell.
        Inr (if cell \<noteq> 0 then count + 1 else count))))))))"

fun getNeighborCount_columns ::
  "settings \<Rightarrow> grid \<Rightarrow> cint \<Rightarrow> cint \<Rightarrow> cint \<Rightarrow> cint list \<Rightarrow> Uint8 \<Rightarrow> fault + Uint8" where
  "getNeighborCount_columns cfg grid row column r [] count = Inr count"
| "getNeighborCount_columns cfg grid row column r (c # cs) count =
     and_then (getNeighborCount_offset cfg grid row column r c count)
       (getNeighborCount_columns cfg grid row column r cs)"

fun getNeighborCount_rows ::
  "settings \<Rightarrow> grid \<Rightarrow> cint \<Rightarrow> cint \<Rightarrow> cint list \<Rightarrow> Uint8 \<Rightarrow> fault + Uint8" where
  "getNeighborCount_rows cfg grid row column [] count = Inr count"
| "getNeighborCount_rows cfg grid row column (r # rs) count =
     and_then (getNeighborCount_columns cfg grid row column r [- 1, 0, 1] count)
       (getNeighborCount_rows cfg grid row column rs)"

definition getNeighborCount :: "settings \<Rightarrow> grid \<Rightarrow> cint \<Rightarrow> cint \<Rightarrow> fault + Uint8" where
  "getNeighborCount cfg grid row column = getNeighborCount_rows cfg grid row column [- 1, 0, 1] 0"

section \<open>updateGrid\<close>

text \<open>
  The body of the two loops over the cells: the count (a \<open>Uint8\<close>) is stored in an
  \<open>int\<close>, the cell of \<open>grid\<close> is read, and the cell of \<open>newGrid\<close> is written.
\<close>

definition updateGrid_cell ::
  "settings \<Rightarrow> buffer \<Rightarrow> buffer \<Rightarrow> cint \<Rightarrow> cint \<Rightarrow> store \<Rightarrow> fault + store" where
  "updateGrid_cell cfg grid newGrid r c s =
     and_then (getNeighborCount cfg (s grid) r c) (\<lambda>count.
     let neighborCount = (ucast count :: cint) in
     and_then (at (s grid) r) (\<lambda>line.
     and_then (at line c) (\<lambda>cell.
       if cell \<noteq> 0 then
         (if sint neighborCount < 2 \<or> 3 < sint neighborCount
          then assign_cell s newGrid r c 0
          else assign_cell s newGrid r c 1)
       else
         (if neighborCount = 3
          then assign_cell s newGrid r c 1
          else assign_cell s newGrid r c 0))))"

text \<open>The two loops: the step, which fills \<open>newGrid\<close>.\<close>

definition updateGrid_step :: "settings \<Rightarrow> buffer \<Rightarrow> buffer \<Rightarrow> store \<Rightarrow> fault + store" where
  "updateGrid_step cfg grid newGrid s =
     for_loop (Rows cfg)
       (\<lambda>r. for_loop (Columns cfg) (\<lambda>c. updateGrid_cell cfg grid newGrid r c) 0) 0 s"

text \<open>The assignment \<open>grid = newGrid\<close> that ends \<open>updateGrid\<close>: the commit.\<close>

definition updateGrid_commit :: "buffer \<Rightarrow> buffer \<Rightarrow> store \<Rightarrow> store" where
  "updateGrid_commit grid newGrid s = s(grid := s newGrid)"

definition updateGrid :: "settings \<Rightarrow> buffer \<Rightarrow> buffer \<Rightarrow> store \<Rightarrow> fault + store" where
  "updateGrid cfg grid newGrid s =
     and_then (updateGrid_step cfg grid newGrid s) (\<lambda>s'.
     Inr (updateGrid_commit grid newGrid s'))"

section \<open>initGrid\<close>

text \<open>
  \<open>std::rand\<close> is the C library's: its results, each between 0 and \<open>RAND_MAX\<close>, are a
  sequence fixed by the seed, of which every call takes the next.
\<close>

type_synonym rand_source = "nat \<Rightarrow> nat"

definition std_rand :: "rand_source \<Rightarrow> nat \<times> rand_source" where
  "std_rand src = (src 0, \<lambda>i. src (Suc i))"

record globals =
  buffers :: store
  rand_src :: rand_source

definition initGrid_cell :: "buffer \<Rightarrow> cint \<Rightarrow> cint \<Rightarrow> globals \<Rightarrow> fault + globals" where
  "initGrid_cell grid r c g =
     (let (x, src') = std_rand (rand_src g) in
      and_then (assign_cell (buffers g) grid r c (if x mod 100 < 10 then 1 else 0)) (\<lambda>s'.
      Inr \<lparr>buffers = s', rand_src = src'\<rparr>))"

definition initGrid :: "settings \<Rightarrow> buffer \<Rightarrow> globals \<Rightarrow> fault + globals" where
  "initGrid cfg grid g =
     for_loop (Rows cfg) (\<lambda>r. for_loop (Columns cfg) (\<lambda>c. initGrid_cell grid r c) 0) 0 g"


section \<open>drawGrid\<close>

text \<open>
  What \<open>drawGrid\<close> gives the renderer: one rectangle for each call of
  \<open>SDL_RenderFillRect\<close>, in the order of the calls. The fields are the \<open>int\<close> values the
  source computes, before the assignment converts them to \<open>float\<close>.
\<close>

record rect =
  rect_x :: cint
  rect_y :: cint
  rect_w :: cint
  rect_h :: cint

text \<open>\<open>a * b\<close> on two \<open>int\<close>s.\<close>

definition int_mul :: "cint \<Rightarrow> cint \<Rightarrow> fault + cint" where
  "int_mul a b =
     (if - (2 ^ 31) \<le> sint a * sint b \<and> sint a * sint b < 2 ^ 31 then Inr (a * b)
      else Inl SignedOverflow)"

definition drawGrid_cell :: "settings \<Rightarrow> grid \<Rightarrow> cint \<Rightarrow> cint \<Rightarrow> rect list \<Rightarrow> fault + rect list" where
  "drawGrid_cell cfg grid r c calls =
     and_then (at grid r) (\<lambda>line.
     and_then (at line c) (\<lambda>cell.
       if cell \<noteq> 0 then
         and_then (int_mul c (ucast (CellSize cfg))) (\<lambda>cx.
         and_then (int_mul r (ucast (CellSize cfg))) (\<lambda>cy.
         Inr (calls @ [\<lparr>rect_x = cx, rect_y = cy, rect_w = ucast (CellSize cfg), rect_h = ucast (CellSize cfg)\<rparr>])))
       else Inr calls))"

definition drawGrid :: "settings \<Rightarrow> grid \<Rightarrow> fault + rect list" where
  "drawGrid cfg grid =
     for_loop (Rows cfg) (\<lambda>r. for_loop (Columns cfg) (\<lambda>c. drawGrid_cell cfg grid r c) 0) 0 []"

section \<open>The callbacks\<close>

text \<open>
  \<open>Application\<close> is the state SDL hands to every callback; \<open>window\<close> and \<open>renderer\<close>
  are the addresses of SDL's objects. An event is its type, with the key of a key
  press. Of \<open>SDL_AppIterate\<close> the model keeps the rectangles drawn, the update of the
  grids and the result; the clock and the delay at the end of the frame are left out.
\<close>

datatype SDL_AppResult = SDL_APP_CONTINUE | SDL_APP_SUCCESS | SDL_APP_FAILURE

record Application =
  window :: nat
  renderer :: nat
  status :: SDL_AppResult
  runSimulation :: bool

datatype SDL_Keycode = SDLK_SPACE | SDLK_R | SDLK_other Uint32

datatype SDL_Event = SDL_EVENT_QUIT | SDL_EVENT_KEY_DOWN SDL_Keycode | SDL_EVENT_other Uint32

fun SDL_AppEvent ::
  "settings \<Rightarrow> Application \<times> globals \<Rightarrow> SDL_Event \<Rightarrow> fault + SDL_AppResult \<times> Application \<times> globals" where
  "SDL_AppEvent cfg (app, g) SDL_EVENT_QUIT =
     Inr (SDL_APP_CONTINUE, app\<lparr>status := SDL_APP_SUCCESS\<rparr>, g)"
| "SDL_AppEvent cfg (app, g) (SDL_EVENT_KEY_DOWN SDLK_SPACE) =
     Inr (SDL_APP_CONTINUE, app\<lparr>runSimulation := \<not> runSimulation app\<rparr>, g)"
| "SDL_AppEvent cfg (app, g) (SDL_EVENT_KEY_DOWN SDLK_R) =
     and_then (initGrid cfg Grid g) (\<lambda>g'. Inr (SDL_APP_CONTINUE, app, g'))"
| "SDL_AppEvent cfg (app, g) (SDL_EVENT_KEY_DOWN (SDLK_other k)) = Inr (SDL_APP_CONTINUE, app, g)"
| "SDL_AppEvent cfg (app, g) (SDL_EVENT_other t) = Inr (SDL_APP_CONTINUE, app, g)"

definition SDL_AppIterate ::
  "settings \<Rightarrow> Application \<times> globals \<Rightarrow> fault + SDL_AppResult \<times> rect list \<times> Application \<times> globals" where
  "SDL_AppIterate cfg ag =
     (case ag of (app, g) \<Rightarrow>
        and_then (drawGrid cfg (buffers g Grid)) (\<lambda>frame.
        and_then (if runSimulation app then updateGrid cfg Grid NewGrid (buffers g)
                  else Inr (buffers g)) (\<lambda>s'.
        Inr (status app, frame, app, g\<lparr>buffers := s'\<rparr>))))"

section \<open>Configurations and states\<close>

text \<open>
  \<open>int_dims\<close>: both dimensions fit an \<open>int\<close>, the type of every index of the source.
  \<open>window_fits\<close>: so do the width and height of the window, which bound the pixel
  coordinates \<open>drawGrid\<close> computes. \<open>shaped\<close>: a grid has \<open>Rows\<close> rows of \<open>Columns\<close>
  cells, as both grids have from their construction on. \<open>binary\<close>: every cell is 0 or 1.
\<close>

definition int_dims :: "settings \<Rightarrow> bool" where
  "int_dims cfg \<longleftrightarrow> Rows cfg \<le> 0x7FFFFFFF \<and> Columns cfg \<le> 0x7FFFFFFF"

definition window_fits :: "settings \<Rightarrow> bool" where
  "window_fits cfg \<longleftrightarrow> WindowWidth cfg \<le> 0x7FFFFFFF \<and> WindowHeight cfg \<le> 0x7FFFFFFF"

definition shaped :: "settings \<Rightarrow> grid \<Rightarrow> bool" where
  "shaped cfg g \<longleftrightarrow>
     length g = unat (Rows cfg) \<and> list_all (\<lambda>line. length line = unat (Columns cfg)) g"

definition binary :: "grid \<Rightarrow> bool" where
  "binary g \<longleftrightarrow> list_all (list_all (\<lambda>cell. cell = 0 \<or> cell = 1)) g"


definition well_formed :: "settings \<Rightarrow> store \<Rightarrow> bool" where
  "well_formed cfg s \<longleftrightarrow>
     shaped cfg (s Grid) \<and> binary (s Grid) \<and> shaped cfg (s NewGrid) \<and> binary (s NewGrid)"

definition alive_exactly :: "nat \<Rightarrow> nat \<Rightarrow> grid \<Rightarrow> (nat \<times> nat) list \<Rightarrow> bool" where
  "alive_exactly R C g cells \<longleftrightarrow>
     list_all (\<lambda>i. list_all (\<lambda>j. (g ! i ! j \<noteq> 0) = ((i, j) \<in> set cells)) [0..<C]) [0..<R]"

section \<open>The count and the rule in the words of the specification\<close>

text \<open>
  These definitions are not taken from the source. They say on natural numbers what
  the specification says: the 8 offsets, each coordinate wrapped modulo the dimension,
  the number of alive cells among them, the cell of the next generation, and the seed
  of a cell from the sequence of random numbers. The functions of the source are
  proved to compute them.
\<close>

definition wrapped :: "nat \<Rightarrow> nat \<Rightarrow> int \<Rightarrow> nat" where
  "wrapped n i d = nat ((int i + d + int n) mod int n)"

definition neighbor_offsets :: "(int \<times> int) list" where
  "neighbor_offsets = [(- 1, - 1), (- 1, 0), (- 1, 1), (0, - 1), (0, 1), (1, - 1), (1, 0), (1, 1)]"

definition neighborCount_spec :: "nat \<Rightarrow> nat \<Rightarrow> grid \<Rightarrow> nat \<Rightarrow> nat \<Rightarrow> nat" where
  "neighborCount_spec R C g i j =
     length (filter (\<lambda>(dr, dc). g ! wrapped R i dr ! wrapped C j dc \<noteq> 0) neighbor_offsets)"

definition next_state_spec :: "nat \<Rightarrow> nat \<Rightarrow> grid \<Rightarrow> nat \<Rightarrow> nat \<Rightarrow> Uint8" where
  "next_state_spec R C g i j =
     (let n = neighborCount_spec R C g i j in
      if g ! i ! j \<noteq> 0 then (if n < 2 \<or> 3 < n then 0 else 1) else (if n = 3 then 1 else 0))"

definition table :: "nat \<Rightarrow> nat \<Rightarrow> (nat \<Rightarrow> nat \<Rightarrow> 'a) \<Rightarrow> 'a list list" where
  "table R C f = map (\<lambda>i. map (f i) [0..<C]) [0..<R]"

definition next_generation_spec :: "nat \<Rightarrow> nat \<Rightarrow> grid \<Rightarrow> grid" where
  "next_generation_spec R C g = map (\<lambda>i. map (\<lambda>j. next_state_spec R C g i j) [0..<C]) [0..<R]"

definition seed_cell :: "rand_source \<Rightarrow> nat \<Rightarrow> nat \<Rightarrow> nat \<Rightarrow> Uint8" where
  "seed_cell src C i j = (if src (i * C + j) mod 100 < 10 then 1 else 0)"

section \<open>Invariants of the loops\<close>

text \<open>
  \<open>written cfg b s f i k s'\<close>: from the store \<open>s\<close>, the loops over the cells have
  reached row \<open>i\<close> and column \<open>k\<close>; the cells of grid \<open>b\<close> before that point hold
  \<open>f\<close>, the others and the other grid are as in \<open>s\<close>. \<open>around n P i\<close> counts the
  coordinates among \<open>i - 1\<close>, \<open>i\<close>, \<open>i + 1\<close>, wrapped, that satisfy \<open>P\<close>.
\<close>

definition count_if :: "bool \<Rightarrow> Uint8 \<Rightarrow> Uint8" where
  "count_if b count = (if b then count + 1 else count)"

definition written ::
  "settings \<Rightarrow> buffer \<Rightarrow> store \<Rightarrow> (nat \<Rightarrow> nat \<Rightarrow> Uint8) \<Rightarrow> nat \<Rightarrow> nat \<Rightarrow> store \<Rightarrow> bool" where
  "written cfg b s f i k s' \<longleftrightarrow>
     (\<forall>b'. b' \<noteq> b \<longrightarrow> s' b' = s b') \<and> shaped cfg (s' b) \<and>
     (\<forall>a<unat (Rows cfg). \<forall>c<unat (Columns cfg).
        s' b ! a ! c = (if a < i \<or> (a = i \<and> c < k) then f a c else s b ! a ! c))"

definition seeded :: "settings \<Rightarrow> buffer \<Rightarrow> globals \<Rightarrow> nat \<Rightarrow> nat \<Rightarrow> globals \<Rightarrow> bool" where
  "seeded cfg b g i k g' \<longleftrightarrow>
     written cfg b (buffers g) (seed_cell (rand_src g) (unat (Columns cfg))) i k (buffers g') \<and>
     rand_src g' = (\<lambda>n. rand_src g (i * unat (Columns cfg) + k + n))"

definition around :: "nat \<Rightarrow> (nat \<Rightarrow> bool) \<Rightarrow> nat \<Rightarrow> nat" where
  "around n P i = of_bool (P (wrapped n i (- 1))) + of_bool (P i) + of_bool (P (wrapped n i 1))"

section \<open>Example inputs\<close>

text \<open>
  A grid of 5 by 5 with a blinker, a staging grid that holds something else, a grid of
  a single cell, a configuration with more rows than an \<open>int\<close> counts, and the state
  in which the program starts.
\<close>

definition settings_5x5 :: settings where
  "settings_5x5 = \<lparr>WindowWidth = 5, WindowHeight = 5, CellSize = 1, FPS = 12\<rparr>"

definition settings_1x1 :: settings where
  "settings_1x1 = \<lparr>WindowWidth = 1, WindowHeight = 1, CellSize = 1, FPS = 12\<rparr>"

definition settings_huge :: settings where
  "settings_huge = \<lparr>WindowWidth = 1, WindowHeight = 2147483649, CellSize = 1, FPS = 12\<rparr>"

definition blinker_row :: grid where
  "blinker_row = [[0, 0, 0, 0, 0], [0, 0, 0, 0, 0], [0, 1, 1, 1, 0], [0, 0, 0, 0, 0], [0, 0, 0, 0, 0]]"

definition blinker_column :: grid where
  "blinker_column = [[0, 0, 0, 0, 0], [0, 0, 1, 0, 0], [0, 0, 1, 0, 0], [0, 0, 1, 0, 0], [0, 0, 0, 0, 0]]"

definition blinker_store :: store where
  "blinker_store = (\<lambda>b. blinker_row)"

definition stale_staging :: grid where
  "stale_staging = [[1, 0, 0, 0, 0], [0, 0, 0, 0, 0], [0, 0, 0, 0, 1], [0, 0, 0, 0, 0], [0, 1, 0, 0, 0]]"

definition blinker_globals :: globals where
  "blinker_globals =
     \<lparr>buffers = (\<lambda>b. case b of Grid \<Rightarrow> blinker_row | NewGrid \<Rightarrow> stale_staging),
      rand_src = (\<lambda>i. 7 * i + 3)\<rparr>"

definition started_app :: Application where
  "started_app = \<lparr>window = 1, renderer = 2, status = SDL_APP_CONTINUE, runSimulation = True\<rparr>"

definition started_globals :: globals where
  "started_globals = \<lparr>buffers = initial_store Settings, rand_src = (\<lambda>i. 7 * i + 3)\<rparr>"

section \<open>The functions compute what the specification says\<close>

subsection \<open>Arithmetic on \<open>int\<close> and \<open>Uint32\<close>\<close>

text \<open>
  Below \<open>2147483648\<close> the signed and the unsigned reading of a word agree, an
  offset of \<open>- 1\<close>, 0 or 1 does not overflow, and the unsigned remainder is the wrapped
  coordinate.
\<close>

lemma sint_small:
  assumes "(a :: cint) \<le> 0x7FFFFFFF"
  shows "sint a = int (unat a)"
proof -
  define n where "n = unat a"
  have u: "uint a = int n"
    by (simp add: n_def)
  from assms have "n < 2 ^ 31"
    by (simp add: word_le_nat_alt n_def)
  then have "int n < 2 ^ 31" "- (2 ^ 31) \<le> int n"
    by simp_all
  then have "signed_take_bit 31 (int n) = int n"
    by (simp only: signed_take_bit_int_eq_self)
  then show ?thesis
    by (simp add: sint_uint u flip: n_def)
qed

lemma int_add_offset:
  assumes "(a :: cint) < N" "N \<le> 0x7FFFFFFF" "d = - 1 \<or> d = 0 \<or> d = 1"
  shows "int_add a d = Inr (a + d)"
proof -
  define n where "n = unat a"
  from assms have "a \<le> 0x7FFFFFFF" by simp
  then have s: "sint a = int n" unfolding n_def by (rule sint_small)
  from assms have "n < 2 ^ 31 - 1"
    by (simp add: word_less_nat_alt word_le_nat_alt n_def)
  with s assms(3) show ?thesis
    by (auto simp: int_add_def)
qed

lemma wrap_offset:
  assumes "(a :: cint) < N" "N \<le> 0x7FFFFFFF" "d = - 1 \<or> d = 0 \<or> d = 1"
  shows "unat ((a + d + N) mod N) = wrapped (unat N) (unat a) (sint d)"
proof -
  define n m where "n = unat a" and "m = unat N"
  let ?k = "int n + sint d + int m"
  have u: "uint a = int n" "uint N = int m"
    by (simp_all add: n_def m_def)
  from assms have b: "n < m" "m < 2 ^ 31"
    by (simp_all add: word_less_nat_alt word_le_nat_alt n_def m_def)
  have "a + d + N = word_of_int (uint a + sint d + uint N)"
    by simp
  then have "uint (a + d + N) = take_bit 32 ?k"
    by (simp only: uint_word_of_int_eq u) simp
  also have "\<dots> = ?k"
    using assms(3) b by (auto intro!: take_bit_int_eq_self)
  finally have "uint ((a + d + N) mod N) = ?k mod int m"
    by (simp add: uint_mod_distrib u)
  then have "unat ((a + d + N) mod N) = nat (?k mod int m)"
    by (simp only: unat_eq_nat_uint)
  then show ?thesis
    by (simp only: wrapped_def n_def m_def)
qed

lemma wrapped_less: "0 < n \<Longrightarrow> wrapped n i d < n"
  by (simp add: wrapped_def nat_less_iff)

subsection \<open>getNeighborCount\<close>

lemma foldl_count_if:
  "foldl (\<lambda>count x. count_if (P x) count) count xs = count + of_nat (length (filter P xs))"
  by (induction xs arbitrary: count) (simp_all add: count_if_def)

lemma at_in_range:
  assumes "(i :: cint) < N" "N \<le> 0x7FFFFFFF" "length v = unat N"
  shows "at v i = Inr (v ! unat i)"
proof -
  from assms have "i \<le> 0x7FFFFFFF" by simp
  then have "sint i = int (unat i)" by (rule sint_small)
  moreover from assms have "unat i < length v"
    by (simp add: word_less_nat_alt)
  ultimately show ?thesis
    by (simp add: at_def)
qed

lemma at_wrapped:
  assumes "(a :: cint) < N" "N \<le> 0x7FFFFFFF" "d = - 1 \<or> d = 0 \<or> d = 1" "length v = unat N"
  shows "at v ((a + d + N) mod N) = Inr (v ! wrapped (unat N) (unat a) (sint d))"
proof -
  from assms(1) have "0 < N"
    by (auto simp: word_greater_zero_iff)
  then have "(a + d + N) mod N < N"
    by (rule word_mod_less_divisor)
  then have "at v ((a + d + N) mod N) = Inr (v ! unat ((a + d + N) mod N))"
    using assms(2,4) by (rule at_in_range)
  then show ?thesis
    using assms by (simp only: wrap_offset)
qed

lemma shaped_row:
  "shaped cfg g \<Longrightarrow> i < unat (Rows cfg) \<Longrightarrow> length (g ! i) = unat (Columns cfg)"
  by (simp add: shaped_def list_all_length)

lemma getNeighborCount_offset_self:
  "getNeighborCount_offset cfg g row column 0 0 count = Inr count"
  by (simp add: getNeighborCount_offset_def)

lemma getNeighborCount_offset_step:
  assumes "row < Rows cfg" "column < Columns cfg" "int_dims cfg" "shaped cfg g"
    and "r = - 1 \<or> r = 0 \<or> r = 1" "c = - 1 \<or> c = 0 \<or> c = 1" "\<not> (r = 0 \<and> c = 0)"
  shows "getNeighborCount_offset cfg g row column r c count =
           Inr (count_if (g ! wrapped (unat (Rows cfg)) (unat row) (sint r)
                            ! wrapped (unat (Columns cfg)) (unat column) (sint c) \<noteq> 0) count)"
proof -
  from assms(3) have dims: "Rows cfg \<le> 0x7FFFFFFF" "Columns cfg \<le> 0x7FFFFFFF"
    by (simp_all add: int_dims_def)
  from assms(1,2) have nz: "Rows cfg \<noteq> 0" "Columns cfg \<noteq> 0"
    by auto
  from assms(4) have len: "length g = unat (Rows cfg)"
    by (simp add: shaped_def)
  have "wrapped (unat (Rows cfg)) (unat row) (sint r) < unat (Rows cfg)"
    using nz by (simp add: wrapped_less unat_gt_0)
  with assms(4)
  have len': "length (g ! wrapped (unat (Rows cfg)) (unat row) (sint r)) = unat (Columns cfg)"
    by (rule shaped_row)
  have sr: "int_add row r = Inr (row + r)"
    using assms(1) dims(1) assms(5) by (rule int_add_offset)
  have sc: "int_add column c = Inr (column + c)"
    using assms(2) dims(2) assms(6) by (rule int_add_offset)
  have line: "at g ((row + r + Rows cfg) mod Rows cfg) =
                Inr (g ! wrapped (unat (Rows cfg)) (unat row) (sint r))"
    using assms(1) dims(1) assms(5) len by (rule at_wrapped)
  have cell: "at (g ! wrapped (unat (Rows cfg)) (unat row) (sint r))
                ((column + c + Columns cfg) mod Columns cfg) =
                Inr (g ! wrapped (unat (Rows cfg)) (unat row) (sint r)
                       ! wrapped (unat (Columns cfg)) (unat column) (sint c))"
    using assms(2) dims(2) assms(6) len' by (rule at_wrapped)
  show ?thesis
    using assms(7) nz
    by (simp add: getNeighborCount_offset_def and_then_def uint_mod_def sr sc line cell count_if_def)
qed

lemma getNeighborCount_total:
  assumes "row < Rows cfg" "column < Columns cfg" "int_dims cfg" "shaped cfg g"
  shows "getNeighborCount cfg g row column =
           Inr (of_nat (neighborCount_spec (unat (Rows cfg)) (unat (Columns cfg)) g
                          (unat row) (unat column)))"
proof -
  note step = getNeighborCount_offset_step [OF assms]
  have "getNeighborCount cfg g row column =
          Inr (foldl (\<lambda>count x. count_if ((\<lambda>(dr, dc). g ! wrapped (unat (Rows cfg)) (unat row) dr
                 ! wrapped (unat (Columns cfg)) (unat column) dc \<noteq> 0) x) count) 0 neighbor_offsets)"
    by (simp add: getNeighborCount_def and_then_def step getNeighborCount_offset_self
        neighbor_offsets_def)
  then show ?thesis
    by (simp only: foldl_count_if neighborCount_spec_def) simp
qed

lemma neighborCount_spec_le: "neighborCount_spec R C g i j \<le> 8"
proof -
  have "neighborCount_spec R C g i j \<le> length neighbor_offsets"
    unfolding neighborCount_spec_def by (rule length_filter_le)
  then show ?thesis
    by (simp add: neighbor_offsets_def)
qed

subsection \<open>The for loop\<close>

text \<open>
  A loop from 0 to a bound that fits an \<open>int\<close> returns, and keeps an invariant that
  its body keeps.
\<close>

lemma int_add_next:
  assumes "(i :: cint) < N" "N \<le> 0x7FFFFFFF"
  shows "int_add i 1 = Inr (i + 1)" "unat (i + 1) = Suc (unat i)" "i + 1 \<le> N"
proof -
  show "int_add i 1 = Inr (i + 1)"
    using assms by (rule int_add_offset) simp
  from assms(1) have "i \<noteq> - 1"
    by (metis word_order.extremum_strict)
  then have "1 + i \<noteq> 0"
    by (simp add: add_eq_0_iff)
  then show u: "unat (i + 1) = Suc (unat i)"
    by (simp add: unatSuc add.commute)
  from assms(1) show "i + 1 \<le> N"
    by (simp add: word_le_nat_alt word_less_nat_alt u)
qed

lemma for_loop_from:
  assumes N: "N \<le> 0x7FFFFFFF"
    and step: "\<And>i s. i < N \<Longrightarrow> I (unat i) s \<Longrightarrow> \<exists>s'. body i s = Inr s' \<and> I (Suc (unat i)) s'"
  shows "i \<le> N \<Longrightarrow> I (unat i) s \<Longrightarrow> \<exists>s'. for_loop N body i s = Inr s' \<and> I (unat N) s'"
proof (induction "unat N - unat i" arbitrary: i s)
  case 0
  then have "i = N"
    by (simp add: word_le_nat_alt word_unat_eq_iff)
  with "0.prems" show ?case
    by (simp add: for_loop.simps)
next
  case (Suc n)
  then have lt: "i < N"
    by (simp add: word_less_nat_alt)
  from step [OF lt Suc.prems(2)] obtain s1 where
    s1: "body i s = Inr s1" "I (Suc (unat i)) s1"
    by blast
  note nxt = int_add_next [OF lt N]
  from Suc.hyps(2) have "n = unat N - unat (i + 1)"
    by (simp add: nxt(2))
  moreover have "I (unat (i + 1)) s1"
    using s1(2) by (simp add: nxt(2))
  ultimately have "\<exists>s'. for_loop N body (i + 1) s1 = Inr s' \<and> I (unat N) s'"
    using nxt(3) by (intro Suc.hyps(1))
  then show ?case
    using lt s1(1) nxt(1) by (subst for_loop.simps) simp
qed

lemma for_loop_invariant:
  assumes "N \<le> 0x7FFFFFFF" and "I 0 s"
    and "\<And>i s. i < N \<Longrightarrow> I (unat i) s \<Longrightarrow> \<exists>s'. body i s = Inr s' \<and> I (Suc (unat i)) s'"
  shows "\<exists>s'. for_loop N body 0 s = Inr s' \<and> I (unat N) s'"
  using assms(1,3) by (rule for_loop_from) (simp_all add: assms(2))

subsection \<open>One cell of updateGrid\<close>

lemma put_in_range:
  assumes "(i :: cint) < N" "N \<le> 0x7FFFFFFF" "length v = unat N"
  shows "put v i x = Inr (v[unat i := x])"
proof -
  from assms have "i \<le> 0x7FFFFFFF" by simp
  then have "sint i = int (unat i)" by (rule sint_small)
  moreover from assms have "unat i < length v"
    by (simp add: word_less_nat_alt)
  ultimately show ?thesis
    by (simp add: put_def)
qed

lemma assign_cell_in_range:
  assumes "r < Rows cfg" "c < Columns cfg" "int_dims cfg" "shaped cfg (s b)"
  shows "assign_cell s b r c v = Inr (s(b := (s b)[unat r := (s b ! unat r)[unat c := v]]))"
proof -
  from assms(3) have dims: "Rows cfg \<le> 0x7FFFFFFF" "Columns cfg \<le> 0x7FFFFFFF"
    by (simp_all add: int_dims_def)
  from assms(4) have len: "length (s b) = unat (Rows cfg)"
    by (simp add: shaped_def)
  from assms(1) have "unat r < unat (Rows cfg)"
    by (simp add: word_less_nat_alt)
  with assms(4) have len': "length (s b ! unat r) = unat (Columns cfg)"
    by (rule shaped_row)
  show ?thesis
    by (simp add: assign_cell_def and_then_def
        at_in_range [OF assms(1) dims(1) len] put_in_range [OF assms(2) dims(2) len']
        put_in_range [OF assms(1) dims(1) len])
qed

lemma count_as_int:
  assumes "n \<le> 8"
  shows "sint (ucast (of_nat n :: Uint8) :: cint) = int n"
    and "(ucast (of_nat n :: Uint8) :: cint) = 3 \<longleftrightarrow> n = 3"
proof -
  from assms have "n \<in> {0, 1, 2, 3, 4, 5, 6, 7, 8}"
    by auto
  then show "sint (ucast (of_nat n :: Uint8) :: cint) = int n"
    and "(ucast (of_nat n :: Uint8) :: cint) = 3 \<longleftrightarrow> n = 3"
    by auto
qed

lemma updateGrid_cell_in_range:
  assumes "r < Rows cfg" "c < Columns cfg" "int_dims cfg"
    and "shaped cfg (s grid)" "shaped cfg (s newGrid)"
  shows "updateGrid_cell cfg grid newGrid r c s =
           Inr (s(newGrid := (s newGrid)[unat r := (s newGrid ! unat r)
                  [unat c := next_state_spec (unat (Rows cfg)) (unat (Columns cfg)) (s grid) (unat r) (unat c)]]))"
proof -
  let ?n = "neighborCount_spec (unat (Rows cfg)) (unat (Columns cfg)) (s grid) (unat r) (unat c)"
  from assms(3) have dims: "Rows cfg \<le> 0x7FFFFFFF" "Columns cfg \<le> 0x7FFFFFFF"
    by (simp_all add: int_dims_def)
  from assms(4) have len: "length (s grid) = unat (Rows cfg)"
    by (simp add: shaped_def)
  from assms(1) have "unat r < unat (Rows cfg)"
    by (simp add: word_less_nat_alt)
  with assms(4) have len': "length (s grid ! unat r) = unat (Columns cfg)"
    by (rule shaped_row)
  have count: "getNeighborCount cfg (s grid) r c = Inr (of_nat ?n)"
    using assms(1-4) by (rule getNeighborCount_total)
  have n: "?n \<le> 8"
    by (rule neighborCount_spec_le)
  have put: "assign_cell s newGrid r c v =
      Inr (s(newGrid := (s newGrid)[unat r := (s newGrid ! unat r)[unat c := v]]))" for v
    using assms(1-3) assms(5) by (rule assign_cell_in_range)
  show ?thesis
    by (simp add: updateGrid_cell_def and_then_def count Let_def
        at_in_range [OF assms(1) dims(1) len] at_in_range [OF assms(2) dims(2) len']
        count_as_int [OF n] put next_state_spec_def)
qed

subsection \<open>Filling a grid cell by cell\<close>

lemma shaped_update:
  assumes "shaped cfg g" "i < unat (Rows cfg)"
  shows "shaped cfg (g[i := (g ! i)[j := v]])"
  using assms by (auto simp: shaped_def list_all_length nth_list_update)

lemma written_start: "shaped cfg (s b) \<Longrightarrow> written cfg b s f 0 0 s"
  by (simp add: written_def)

lemma written_row: "written cfg b s f i (unat (Columns cfg)) s' \<Longrightarrow> written cfg b s f (Suc i) 0 s'"
  by (auto simp: written_def less_Suc_eq)

lemma written_cell:
  assumes f: "written cfg b s f i k s1"
    and i: "i < unat (Rows cfg)" and k: "k < unat (Columns cfg)"
  shows "written cfg b s f i (Suc k) (s1(b := (s1 b)[i := (s1 b ! i)[k := f i k]]))"
proof -
  from f have sh: "shaped cfg (s1 b)"
    by (simp add: written_def)
  then have len: "length (s1 b) = unat (Rows cfg)"
    by (simp add: shaped_def)
  have row: "length (s1 b ! a) = unat (Columns cfg)" if "a < unat (Rows cfg)" for a
    using sh that by (rule shaped_row)
  show ?thesis
    unfolding written_def
  proof (intro conjI allI impI)
    fix b' assume "b' \<noteq> b"
    with f show "(s1(b := (s1 b)[i := (s1 b ! i)[k := f i k]])) b' = s b'"
      by (simp add: written_def)
  next
    show "shaped cfg ((s1(b := (s1 b)[i := (s1 b ! i)[k := f i k]])) b)"
      using sh i by (simp add: shaped_update)
  next
    fix a c assume ac: "a < unat (Rows cfg)" "c < unat (Columns cfg)"
    from f ac have old: "s1 b ! a ! c =
        (if a < i \<or> (a = i \<and> c < k) then f a c else s b ! a ! c)"
      by (simp add: written_def)
    show "(s1(b := (s1 b)[i := (s1 b ! i)[k := f i k]])) b ! a ! c =
        (if a < i \<or> (a = i \<and> c < Suc k) then f a c else s b ! a ! c)"
    proof (cases "a = i")
      case True
      with ac len row [of i] old show ?thesis
        by (cases "c = k") (auto simp: nth_list_update less_Suc_eq)
    next
      case False
      with ac len old show ?thesis
        by (simp add: nth_list_update)
    qed
  qed
qed

lemma written_all:
  assumes "written cfg b s f (unat (Rows cfg)) 0 s'"
  shows "s' = s(b := table (unat (Rows cfg)) (unat (Columns cfg)) f)"
proof
  fix b'
  show "s' b' = (s(b := table (unat (Rows cfg)) (unat (Columns cfg)) f)) b'"
  proof (cases "b' = b")
    case False
    with assms show ?thesis
      by (simp add: written_def)
  next
    case True
    from assms have sh: "shaped cfg (s' b)"
      by (simp add: written_def)
    have "s' b = table (unat (Rows cfg)) (unat (Columns cfg)) f"
    proof (rule nth_equalityI)
      show "length (s' b) = length (table (unat (Rows cfg)) (unat (Columns cfg)) f)"
        using sh by (simp add: shaped_def table_def)
    next
      fix a assume "a < length (s' b)"
      with sh have a: "a < unat (Rows cfg)"
        by (simp add: shaped_def)
      show "s' b ! a = table (unat (Rows cfg)) (unat (Columns cfg)) f ! a"
      proof (rule nth_equalityI)
        show "length (s' b ! a) = length (table (unat (Rows cfg)) (unat (Columns cfg)) f ! a)"
          using shaped_row [OF sh a] a by (simp add: table_def)
      next
        fix c assume "c < length (s' b ! a)"
        with shaped_row [OF sh a] have "c < unat (Columns cfg)"
          by simp
        with assms a show "s' b ! a ! c = table (unat (Rows cfg)) (unat (Columns cfg)) f ! a ! c"
          by (simp add: written_def table_def)
      qed
    qed
    with True show ?thesis
      by simp
  qed
qed

subsection \<open>The loops of updateGrid\<close>

lemma updateGrid_columns:
  assumes dims: "int_dims cfg" and ne: "grid \<noteq> newGrid" and sh: "shaped cfg (s grid)"
    and r: "r < Rows cfg"
    and f: "written cfg newGrid s (next_state_spec (unat (Rows cfg)) (unat (Columns cfg)) (s grid)) (unat r) 0 s1"
  shows "\<exists>s'. for_loop (Columns cfg) (\<lambda>c. updateGrid_cell cfg grid newGrid r c) 0 s1 = Inr s' \<and>
     written cfg newGrid s (next_state_spec (unat (Rows cfg)) (unat (Columns cfg)) (s grid)) (Suc (unat r)) 0 s'"
proof -
  let ?f = "next_state_spec (unat (Rows cfg)) (unat (Columns cfg)) (s grid)"
  from dims have C: "Columns cfg \<le> 0x7FFFFFFF"
    by (simp add: int_dims_def)
  from r have i: "unat r < unat (Rows cfg)"
    by (simp add: word_less_nat_alt)
  have "\<exists>s'. for_loop (Columns cfg) (\<lambda>c. updateGrid_cell cfg grid newGrid r c) 0 s1 = Inr s' \<and>
              written cfg newGrid s ?f (unat r) (unat (Columns cfg)) s'"
    using C f
  proof (rule for_loop_invariant [where I = "\<lambda>k. written cfg newGrid s ?f (unat r) k"])
    fix c s2
    assume c: "c < Columns cfg" and f2: "written cfg newGrid s ?f (unat r) (unat c) s2"
    from f2 ne have same: "s2 grid = s grid"
      by (simp add: written_def)
    from f2 have sh2: "shaped cfg (s2 newGrid)"
      by (simp add: written_def)
    from c have k: "unat c < unat (Columns cfg)"
      by (simp add: word_less_nat_alt)
    have "updateGrid_cell cfg grid newGrid r c s2 =
        Inr (s2(newGrid := (s2 newGrid)[unat r := (s2 newGrid ! unat r)[unat c := ?f (unat r) (unat c)]]))"
      using updateGrid_cell_in_range [OF r c dims, of s2 grid newGrid] sh sh2 same by simp
    with written_cell [OF f2 i k]
    show "\<exists>s'. updateGrid_cell cfg grid newGrid r c s2 = Inr s' \<and>
               written cfg newGrid s ?f (unat r) (Suc (unat c)) s'"
      by simp
  qed
  then show ?thesis
    by (blast intro: written_row)
qed

lemma updateGrid_step_total:
  assumes dims: "int_dims cfg" and ne: "grid \<noteq> newGrid"
    and sh: "shaped cfg (s grid)" and sh': "shaped cfg (s newGrid)"
  shows "updateGrid_step cfg grid newGrid s =
           Inr (s(newGrid := next_generation_spec (unat (Rows cfg)) (unat (Columns cfg)) (s grid)))"
proof -
  let ?f = "next_state_spec (unat (Rows cfg)) (unat (Columns cfg)) (s grid)"
  from dims have R: "Rows cfg \<le> 0x7FFFFFFF"
    by (simp add: int_dims_def)
  from sh' have init: "written cfg newGrid s ?f 0 0 s"
    by (rule written_start)
  have "\<exists>s'. for_loop (Rows cfg)
          (\<lambda>r. for_loop (Columns cfg) (\<lambda>c. updateGrid_cell cfg grid newGrid r c) 0) 0 s = Inr s' \<and>
          written cfg newGrid s ?f (unat (Rows cfg)) 0 s'"
    using R init
  proof (rule for_loop_invariant [where I = "\<lambda>i. written cfg newGrid s ?f i 0"])
    fix r s1
    assume "r < Rows cfg" "written cfg newGrid s ?f (unat r) 0 s1"
    with dims ne sh
    show "\<exists>s'. for_loop (Columns cfg) (\<lambda>c. updateGrid_cell cfg grid newGrid r c) 0 s1 = Inr s' \<and>
               written cfg newGrid s ?f (Suc (unat r)) 0 s'"
      by (rule updateGrid_columns)
  qed
  then show ?thesis
    by (auto simp: updateGrid_step_def next_generation_spec_def table_def dest!: written_all)
qed

subsection \<open>The loops of initGrid\<close>

lemma initGrid_columns:
  assumes dims: "int_dims cfg" and r: "r < Rows cfg" and f: "seeded cfg b g (unat r) 0 g1"
  shows "\<exists>g'. for_loop (Columns cfg) (\<lambda>c. initGrid_cell b r c) 0 g1 = Inr g' \<and>
              seeded cfg b g (Suc (unat r)) 0 g'"
proof -
  from dims have C: "Columns cfg \<le> 0x7FFFFFFF"
    by (simp add: int_dims_def)
  from r have i: "unat r < unat (Rows cfg)"
    by (simp add: word_less_nat_alt)
  have "\<exists>g'. for_loop (Columns cfg) (\<lambda>c. initGrid_cell b r c) 0 g1 = Inr g' \<and>
              seeded cfg b g (unat r) (unat (Columns cfg)) g'"
    using C f
  proof (rule for_loop_invariant [where I = "\<lambda>k. seeded cfg b g (unat r) k"])
    fix c g2
    assume c: "c < Columns cfg" and f2: "seeded cfg b g (unat r) (unat c) g2"
    let ?f = "seed_cell (rand_src g) (unat (Columns cfg))"
    from f2 have w: "written cfg b (buffers g) ?f (unat r) (unat c) (buffers g2)"
      and src: "rand_src g2 = (\<lambda>n. rand_src g (unat r * unat (Columns cfg) + unat c + n))"
      by (simp_all add: seeded_def)
    from w have sh2: "shaped cfg (buffers g2 b)"
      by (simp add: written_def)
    from c have k: "unat c < unat (Columns cfg)"
      by (simp add: word_less_nat_alt)
    have put: "assign_cell (buffers g2) b r c v =
        Inr ((buffers g2)(b := (buffers g2 b)[unat r := (buffers g2 b ! unat r)[unat c := v]]))" for v
      using r c dims sh2 by (rule assign_cell_in_range)
    have "initGrid_cell b r c g2 =
        Inr \<lparr>buffers = (buffers g2)(b := (buffers g2 b)[unat r := (buffers g2 b ! unat r)
               [unat c := ?f (unat r) (unat c)]]),
             rand_src = (\<lambda>n. rand_src g (unat r * unat (Columns cfg) + Suc (unat c) + n))\<rparr>"
      by (simp add: initGrid_cell_def std_rand_def and_then_def put src seed_cell_def)
    with written_cell [OF w i k]
    show "\<exists>g'. initGrid_cell b r c g2 = Inr g' \<and> seeded cfg b g (unat r) (Suc (unat c)) g'"
      by (simp add: seeded_def)
  qed
  then obtain g' where
    g': "for_loop (Columns cfg) (\<lambda>c. initGrid_cell b r c) 0 g1 = Inr g'"
      "seeded cfg b g (unat r) (unat (Columns cfg)) g'"
    by blast
  from g'(2) have "seeded cfg b g (Suc (unat r)) 0 g'"
    by (simp add: seeded_def written_row add.commute)
  with g'(1) show ?thesis
    by blast
qed

lemma initGrid_total:
  assumes dims: "int_dims cfg" and sh: "shaped cfg (buffers g b)"
  shows "initGrid cfg b g =
           Inr \<lparr>buffers = (buffers g)(b := table (unat (Rows cfg)) (unat (Columns cfg))
                    (seed_cell (rand_src g) (unat (Columns cfg)))),
                rand_src = (\<lambda>n. rand_src g (unat (Rows cfg) * unat (Columns cfg) + n))\<rparr>"
proof -
  from dims have R: "Rows cfg \<le> 0x7FFFFFFF"
    by (simp add: int_dims_def)
  from sh have init: "seeded cfg b g 0 0 g"
    by (simp add: seeded_def written_start)
  have "\<exists>g'. for_loop (Rows cfg) (\<lambda>r. for_loop (Columns cfg) (\<lambda>c. initGrid_cell b r c) 0) 0 g = Inr g' \<and>
          seeded cfg b g (unat (Rows cfg)) 0 g'"
    using R init
  proof (rule for_loop_invariant [where I = "\<lambda>i. seeded cfg b g i 0"])
    fix r g1
    assume "r < Rows cfg" "seeded cfg b g (unat r) 0 g1"
    with dims
    show "\<exists>g'. for_loop (Columns cfg) (\<lambda>c. initGrid_cell b r c) 0 g1 = Inr g' \<and>
               seeded cfg b g (Suc (unat r)) 0 g'"
      by (rule initGrid_columns)
  qed
  then obtain g' where
    g': "initGrid cfg b g = Inr g'" "seeded cfg b g (unat (Rows cfg)) 0 g'"
    by (auto simp: initGrid_def)
  from g'(2) have "buffers g' = (buffers g)(b := table (unat (Rows cfg)) (unat (Columns cfg))
                    (seed_cell (rand_src g) (unat (Columns cfg))))"
    and "rand_src g' = (\<lambda>n. rand_src g (unat (Rows cfg) * unat (Columns cfg) + n))"
    by (simp_all add: seeded_def written_all)
  with g'(1) show ?thesis
    by simp
qed

subsection \<open>drawGrid\<close>

lemma unat_ucast_byte: "unat (ucast (b :: Uint8) :: cint) = unat b"
proof -
  have "unat b < 2 ^ 8"
    using unsigned_less [of b] by simp
  then have "unat b < 2 ^ 32"
    by simp
  then have "take_bit 32 (unat b) = unat b"
    by (rule take_bit_nat_eq_self)
  then show ?thesis
    by (simp add: unsigned_ucast_eq)
qed

lemma div_byte_le: "(W :: Uint32) div ucast (b :: Uint8) \<le> W"
  by (simp add: word_le_nat_alt unat_div_distrib)

lemma window_fits_dims: "window_fits cfg \<Longrightarrow> int_dims cfg"
  unfolding window_fits_def int_dims_def Rows_def Columns_def
  by (meson div_byte_le order_trans)

lemma scaled_below:
  assumes "(i :: cint) < W div ucast (b :: Uint8)" "W \<le> 0x7FFFFFFF"
  shows "int_mul i (ucast b) = Inr (i * ucast b)"
proof -
  define n m k where "n = unat i" and "m = unat b" and "k = unat W"
  from assms(1) have "n < k div m"
    by (simp add: word_less_nat_alt unat_div_distrib unat_ucast_byte n_def m_def k_def)
  then have "0 < m" "Suc n \<le> k div m"
    by (auto intro: Nat.gr0I)
  then have "Suc n * m \<le> k"
    by (simp only: less_eq_div_iff_mult_less_eq)
  with \<open>0 < m\<close> have "n * m < k"
    by simp
  moreover from assms(2) have "k < 2 ^ 31"
    by (simp add: word_le_nat_alt k_def)
  ultimately have nm: "n * m < 2 ^ 31"
    by simp
  have "W div ucast b \<le> 0x7FFFFFFF"
    using div_byte_le assms(2) by (rule order_trans)
  with assms(1) have "i \<le> 0x7FFFFFFF"
    by simp
  then have si: "sint i = int n"
    unfolding n_def by (rule sint_small)
  have "unat (ucast b :: cint) < 2 ^ 8"
    using unsigned_less [of b] by (simp add: unat_ucast_byte)
  then have "(ucast b :: cint) \<le> 0x7FFFFFFF"
    by (simp add: word_le_nat_alt)
  then have "sint (ucast b :: cint) = int (unat (ucast b :: cint))"
    by (rule sint_small)
  then have sb: "sint (ucast b :: cint) = int m"
    by (simp only: unat_ucast_byte m_def)
  have "int n * int m < 2 ^ 31"
    using nm by (metis of_nat_mult of_nat_less_iff of_nat_numeral of_nat_power)
  moreover have "- (2 ^ 31) \<le> int n * int m"
    by (metis of_nat_mult of_nat_0_le_iff order_trans neg_le_0_iff_le zero_le_numeral zero_le_power)
  ultimately show ?thesis
    by (simp add: int_mul_def si sb)
qed

lemma drawGrid_cell_total:
  assumes "r < Rows cfg" "c < Columns cfg" "window_fits cfg" "shaped cfg g"
  shows "\<exists>calls'. drawGrid_cell cfg g r c calls = Inr calls'"
proof -
  from assms(3) have dims: "Rows cfg \<le> 0x7FFFFFFF" "Columns cfg \<le> 0x7FFFFFFF"
    using window_fits_dims by (simp_all add: int_dims_def)
  from assms(3) have win: "WindowWidth cfg \<le> 0x7FFFFFFF" "WindowHeight cfg \<le> 0x7FFFFFFF"
    by (simp_all add: window_fits_def)
  from assms(4) have len: "length g = unat (Rows cfg)"
    by (simp add: shaped_def)
  from assms(1) have "unat r < unat (Rows cfg)"
    by (simp add: word_less_nat_alt)
  with assms(4) have len': "length (g ! unat r) = unat (Columns cfg)"
    by (rule shaped_row)
  have cx: "int_mul c (ucast (CellSize cfg)) = Inr (c * ucast (CellSize cfg))"
    using assms(2) win(1) unfolding Columns_def by (rule scaled_below)
  have cy: "int_mul r (ucast (CellSize cfg)) = Inr (r * ucast (CellSize cfg))"
    using assms(1) win(2) unfolding Rows_def by (rule scaled_below)
  show ?thesis
    by (simp add: drawGrid_cell_def and_then_def cx cy
        at_in_range [OF assms(1) dims(1) len] at_in_range [OF assms(2) dims(2) len'])
qed

lemma drawGrid_total:
  assumes "window_fits cfg" "shaped cfg g"
  shows "\<exists>calls. drawGrid cfg g = Inr calls"
proof -
  from assms(1) have dims: "Rows cfg \<le> 0x7FFFFFFF" "Columns cfg \<le> 0x7FFFFFFF"
    using window_fits_dims by (simp_all add: int_dims_def)
  have row: "\<exists>calls'. for_loop (Columns cfg) (\<lambda>c. drawGrid_cell cfg g r c) 0 calls = Inr calls' \<and> True"
    if "r < Rows cfg" for r calls
    using dims(2)
  proof (rule for_loop_invariant [where I = "\<lambda>k calls. True"])
    fix c calls1
    assume "c < Columns cfg"
    with that show "\<exists>calls'. drawGrid_cell cfg g r c calls1 = Inr calls' \<and> True"
      using assms drawGrid_cell_total by simp
  qed simp
  have "\<exists>calls. for_loop (Rows cfg)
      (\<lambda>r. for_loop (Columns cfg) (\<lambda>c. drawGrid_cell cfg g r c) 0) 0 [] = Inr calls \<and> True"
    using dims(1)
  proof (rule for_loop_invariant [where I = "\<lambda>k calls. True"])
    fix r calls1
    assume "r < Rows cfg"
    then show "\<exists>calls'. for_loop (Columns cfg) (\<lambda>c. drawGrid_cell cfg g r c) 0 calls1 = Inr calls' \<and> True"
      by (rule row)
  qed simp
  then show ?thesis
    by (simp add: drawGrid_def)
qed

subsection \<open>The count around a line of three cells\<close>

text \<open>
  The alive cells of a blinker are a product of a set of rows and a set of columns, and
  so is the count of the neighbours, up to the cell itself.
\<close>

lemma alive_exactly_iff:
  "alive_exactly R C g cells \<longleftrightarrow> (\<forall>i<R. \<forall>j<C. (g ! i ! j \<noteq> 0) = ((i, j) \<in> set cells))"
  by (simp add: alive_exactly_def list_all_iff Ball_def)

lemma wrapped_0: "i < n \<Longrightarrow> wrapped n i 0 = i"
  by (simp add: wrapped_def)

lemma wrapped_m1:
  assumes "i < n"
  shows "wrapped n i (- 1) = (if i = 0 then n - 1 else i - 1)"
proof -
  have "(int i + - 1 + int n) mod int n = (if i = 0 then int n - 1 else int i - 1)"
  proof (cases "i = 0")
    case True
    from assms have "(int n - 1) mod int n = int n - 1"
      by (intro mod_pos_pos_trivial) simp_all
    with True show ?thesis
      by simp
  next
    case False
    with assms have "(int i - 1) mod int n = int i - 1"
      by (intro mod_pos_pos_trivial) simp_all
    moreover have "(int i + - 1 + int n) mod int n = (int i - 1) mod int n"
      by simp
    ultimately show ?thesis
      using False by simp
  qed
  moreover have "nat (int n - 1) = n - 1" "nat (int i - 1) = i - 1"
    by linarith+
  ultimately show ?thesis
    by (simp add: wrapped_def)
qed

lemma wrapped_p1:
  assumes "i < n"
  shows "wrapped n i 1 = (if Suc i = n then 0 else Suc i)"
  proof (cases "Suc i = n")
    case True
    then have "int i + 1 + int n = int n + int n" by simp
    then show ?thesis using True by (simp only: wrapped_def) simp
  next
    case False
    with assms have "Suc i < n" by simp
    moreover have "int i + 1 + int n = int (Suc i) + int n" by simp
    ultimately show ?thesis using False
      by (simp only: wrapped_def) (simp add: nat_mod_distrib)
  qed

lemma length_filter_Cons_of_bool:
  "length (filter P (x # xs)) = of_bool (P x) + length (filter P xs)"
  by simp

lemma product_count:
  "length (filter (\<lambda>(dr, dc). A dr \<and> B dc) neighbor_offsets) =
     (of_bool (A (- 1)) + of_bool (A 0) + of_bool (A 1)) *
     (of_bool (B (- 1)) + of_bool (B 0) + of_bool (B 1)) - of_bool (A 0 \<and> B 0)"
proof -
  have "length (filter (\<lambda>(dr, dc). A dr \<and> B dc) neighbor_offsets) =
      of_bool (A (- 1)) * of_bool (B (- 1)) + of_bool (A (- 1)) * of_bool (B 0) +
      of_bool (A (- 1)) * of_bool (B 1) + of_bool (A 0) * of_bool (B (- 1)) +
      of_bool (A 0) * of_bool (B 1) + of_bool (A 1) * of_bool (B (- 1)) +
      of_bool (A 1) * of_bool (B 0) + of_bool (A 1) * of_bool (B 1)"
    unfolding neighbor_offsets_def
    by (simp only: length_filter_Cons_of_bool filter.simps list.size prod.case of_bool_conj) simp
  then show ?thesis
    by (simp only: of_bool_conj) (simp add: algebra_simps)
qed

lemma neighborCount_spec_product:
  assumes "i < R" "j < C"
    and g: "\<And>a b. a < R \<Longrightarrow> b < C \<Longrightarrow> (g ! a ! b \<noteq> 0) = (A a \<and> B b)"
  shows "neighborCount_spec R C g i j = around R A i * around C B j - of_bool (A i \<and> B j)"
proof -
  from assms have "0 < R" "0 < C" by simp_all
  then have "(g ! wrapped R i dr ! wrapped C j dc \<noteq> 0) =
      (A (wrapped R i dr) \<and> B (wrapped C j dc))" for dr dc
    by (simp add: g wrapped_less)
  then have "neighborCount_spec R C g i j =
      length (filter (\<lambda>(dr, dc). A (wrapped R i dr) \<and> B (wrapped C j dc)) neighbor_offsets)"
    by (simp add: neighborCount_spec_def)
  also have "\<dots> = around R A i * around C B j - of_bool (A i \<and> B j)"
    using assms(1,2) by (simp only: product_count around_def wrapped_0)
  finally show ?thesis .
qed

lemma around_single:
  assumes "i < n" "Suc (Suc r) < n"
  shows "around n (\<lambda>a. a = Suc r) i = of_bool (i = r \<or> i = Suc r \<or> i = Suc (Suc r))"
  using assms by (auto simp: around_def wrapped_m1 wrapped_p1)

lemma around_three_mid:
  assumes "Suc (Suc c) < n"
  shows "around n (\<lambda>b. b = c \<or> b = Suc c \<or> b = Suc (Suc c)) (Suc c) = 3"
proof -
  from assms have "Suc c < n" by simp
  then have "wrapped n (Suc c) (- 1) = c" "wrapped n (Suc c) 1 = Suc (Suc c)"
    using assms by (simp_all add: wrapped_m1 wrapped_p1)
  then show ?thesis
    by (simp add: around_def)
qed

lemma around_three_low:
  assumes "Suc (Suc c) < n" "4 \<le> n"
  shows "around n (\<lambda>b. b = c \<or> b = Suc c \<or> b = Suc (Suc c)) c = 2"
proof -
  from assms have c: "c < n" by simp
  have "wrapped n c 1 = Suc c"
    using assms c by (simp add: wrapped_p1)
  moreover have "wrapped n c (- 1) \<noteq> c" "wrapped n c (- 1) \<noteq> Suc c" "wrapped n c (- 1) \<noteq> Suc (Suc c)"
    using assms c by (auto simp: wrapped_m1)
  ultimately show ?thesis
    by (simp add: around_def)
qed

lemma around_three_high:
  assumes "Suc (Suc c) < n" "4 \<le> n"
  shows "around n (\<lambda>b. b = c \<or> b = Suc c \<or> b = Suc (Suc c)) (Suc (Suc c)) = 2"
proof -
  have "wrapped n (Suc (Suc c)) (- 1) = Suc c"
    using assms by (simp add: wrapped_m1)
  moreover have "wrapped n (Suc (Suc c)) 1 \<noteq> c" "wrapped n (Suc (Suc c)) 1 \<noteq> Suc c"
    "wrapped n (Suc (Suc c)) 1 \<noteq> Suc (Suc c)"
    using assms by (simp_all add: wrapped_p1)
  ultimately show ?thesis
    by (simp add: around_def)
qed

lemma around_le_two: "\<not> P j \<Longrightarrow> around n P j \<le> 2"
  by (simp add: around_def of_bool_def)

lemma around_three:
  assumes "Suc (Suc c) < n" "4 \<le> n"
  shows "(around n (\<lambda>b. b = c \<or> b = Suc c \<or> b = Suc (Suc c)) j = 3) = (j = Suc c)"
    and "j = c \<or> j = Suc (Suc c) \<Longrightarrow> around n (\<lambda>b. b = c \<or> b = Suc c \<or> b = Suc (Suc c)) j = 2"
proof -
  let ?P = "\<lambda>b. b = c \<or> b = Suc c \<or> b = Suc (Suc c)"
  show "j = c \<or> j = Suc (Suc c) \<Longrightarrow> around n ?P j = 2"
    using around_three_low [OF assms] around_three_high [OF assms] by blast
  show "(around n ?P j = 3) = (j = Suc c)"
  proof (cases "?P j")
    case True
    then show ?thesis
      using around_three_low [OF assms] around_three_high [OF assms] around_three_mid [OF assms(1)]
      by auto
  next
    case False
    then have "around n ?P j \<le> 2"
      by (rule around_le_two)
    with False show ?thesis
      by auto
  qed
qed

lemma rule_on_product:
  fixes X Y :: nat
  assumes "X = of_bool p" "(Y = 3) = q" "alive \<Longrightarrow> p" "alive \<Longrightarrow> \<not> q \<Longrightarrow> Y = 2"
  shows "(if alive then (if X * Y - of_bool alive < 2 \<or> 3 < X * Y - of_bool alive then 0 else 1)
          else (if X * Y - of_bool alive = 3 then 1 else 0)) = (if p \<and> q then 1 else (0 :: Uint8))"
proof (cases alive)
  case True
  with assms(3) have p by simp
  show ?thesis
  proof (cases q)
    case True
    with assms(2) have "Y = 3" by simp
    with \<open>alive\<close> \<open>p\<close> True assms(1) show ?thesis by simp
  next
    case False
    with assms(4) \<open>alive\<close> have "Y = 2" by simp
    with \<open>alive\<close> \<open>p\<close> False assms(1) show ?thesis by simp
  qed
next
  case False
  with assms(1,2) show ?thesis
    by (cases p) auto
qed

lemma next_state_row:
  assumes ij: "i < R" "j < C" and big: "4 \<le> C" and fit: "Suc (Suc r) < R" "Suc (Suc c) < C"
    and g: "alive_exactly R C g [(Suc r, c), (Suc r, Suc c), (Suc r, Suc (Suc c))]"
  shows "next_state_spec R C g i j =
           (if (i, j) \<in> set [(r, Suc c), (Suc r, Suc c), (Suc (Suc r), Suc c)] then 1 else 0)"
proof -
  let ?A = "\<lambda>a. a = Suc r" and ?B = "\<lambda>b. b = c \<or> b = Suc c \<or> b = Suc (Suc c)"
  from g have alive: "(g ! a ! b \<noteq> 0) = (?A a \<and> ?B b)" if "a < R" "b < C" for a b
    using that by (auto simp: alive_exactly_iff)
  then have n: "neighborCount_spec R C g i j = around R ?A i * around C ?B j - of_bool (?A i \<and> ?B j)"
    using ij by (intro neighborCount_spec_product) simp_all
  have X: "around R ?A i = of_bool (i = r \<or> i = Suc r \<or> i = Suc (Suc r))"
    using ij(1) fit(1) by (rule around_single)
  note Y = around_three [OF fit(2) big, of j]
  have "next_state_spec R C g i j =
       (if ?A i \<and> ?B j
         then (if around R ?A i * around C ?B j - of_bool (?A i \<and> ?B j) < 2 \<or>
                  3 < around R ?A i * around C ?B j - of_bool (?A i \<and> ?B j) then 0 else 1)
         else (if around R ?A i * around C ?B j - of_bool (?A i \<and> ?B j) = 3 then 1 else 0))"
    by (simp only: next_state_spec_def Let_def n alive [OF ij])
  also have "\<dots> = (if (i = r \<or> i = Suc r \<or> i = Suc (Suc r)) \<and> j = Suc c then 1 else (0 :: Uint8))"
    using X Y(1)
  proof (rule rule_on_product)
    assume "?A i \<and> ?B j" "j \<noteq> Suc c"
    then show "around C ?B j = 2"
      using Y(2) by blast
  qed simp
  also have "\<dots> = (if (i, j) \<in> set [(r, Suc c), (Suc r, Suc c), (Suc (Suc r), Suc c)] then 1 else 0)"
    by auto
  finally show ?thesis .
qed

lemma next_state_column:
  assumes ij: "i < R" "j < C" and big: "4 \<le> R" and fit: "Suc (Suc r) < R" "Suc (Suc c) < C"
    and g: "alive_exactly R C g [(r, Suc c), (Suc r, Suc c), (Suc (Suc r), Suc c)]"
  shows "next_state_spec R C g i j =
           (if (i, j) \<in> set [(Suc r, c), (Suc r, Suc c), (Suc r, Suc (Suc c))] then 1 else 0)"
proof -
  let ?A = "\<lambda>a. a = r \<or> a = Suc r \<or> a = Suc (Suc r)" and ?B = "\<lambda>b. b = Suc c"
  from g have alive: "(g ! a ! b \<noteq> 0) = (?A a \<and> ?B b)" if "a < R" "b < C" for a b
    using that by (auto simp: alive_exactly_iff)
  then have n: "neighborCount_spec R C g i j = around C ?B j * around R ?A i - of_bool (?A i \<and> ?B j)"
    using ij by (subst mult.commute, intro neighborCount_spec_product) simp_all
  have X: "around C ?B j = of_bool (j = c \<or> j = Suc c \<or> j = Suc (Suc c))"
    using ij(2) fit(2) by (rule around_single)
  note Y = around_three [OF fit(1) big, of i]
  have "next_state_spec R C g i j =
       (if ?A i \<and> ?B j
         then (if around C ?B j * around R ?A i - of_bool (?A i \<and> ?B j) < 2 \<or>
                  3 < around C ?B j * around R ?A i - of_bool (?A i \<and> ?B j) then 0 else 1)
         else (if around C ?B j * around R ?A i - of_bool (?A i \<and> ?B j) = 3 then 1 else 0))"
    by (simp only: next_state_spec_def Let_def n alive [OF ij])
  also have "\<dots> = (if (j = c \<or> j = Suc c \<or> j = Suc (Suc c)) \<and> i = Suc r then 1 else (0 :: Uint8))"
    using X Y(1)
  proof (rule rule_on_product)
    assume "?A i \<and> ?B j" "i \<noteq> Suc r"
    then show "around R ?A i = 2"
      using Y(2) by blast
  qed simp
  also have "\<dots> = (if (i, j) \<in> set [(Suc r, c), (Suc r, Suc c), (Suc r, Suc (Suc c))] then 1 else 0)"
    by auto
  finally show ?thesis .
qed

subsection \<open>The grids the loops produce\<close>

lemma table_nth: "i < R \<Longrightarrow> j < C \<Longrightarrow> table R C f ! i ! j = f i j"
  by (simp add: table_def)

lemma shaped_table: "shaped cfg (table (unat (Rows cfg)) (unat (Columns cfg)) f)"
  by (simp add: shaped_def table_def list_all_iff)

lemma list_all_table: "list_all (list_all P) (table R C f) \<longleftrightarrow> (\<forall>i<R. \<forall>j<C. P (f i j))"
  by (auto simp: table_def list_all_iff)

lemma next_generation_nth:
  "i < R \<Longrightarrow> j < C \<Longrightarrow> next_generation_spec R C g ! i ! j = next_state_spec R C g i j"
  by (simp add: next_generation_spec_def)

lemma next_generation_table: "next_generation_spec R C g = table R C (next_state_spec R C g)"
  by (simp add: next_generation_spec_def table_def)

lemma shaped_next_generation:
  "shaped cfg (next_generation_spec (unat (Rows cfg)) (unat (Columns cfg)) g)"
  by (simp add: next_generation_table shaped_table)

lemma binary_next_generation: "binary (next_generation_spec R C g)"
  by (simp add: binary_def next_generation_table list_all_table next_state_spec_def Let_def)

lemma binary_seeded: "binary (table R C (seed_cell src C'))"
  by (simp add: binary_def list_all_table seed_cell_def)

lemma shaped_initial: "shaped cfg (initial_store cfg b)"
  by (simp add: shaped_def initial_store_def list_all_iff)

lemma binary_initial: "binary (initial_store cfg b)"
  by (simp add: binary_def initial_store_def list_all_iff)




lemma next_generation_alive:
  assumes "\<And>i j. i < R \<Longrightarrow> j < C \<Longrightarrow>
    next_state_spec R C g i j = (if (i, j) \<in> set cells then 1 else 0)"
  shows "alive_exactly R C (next_generation_spec R C g) cells"
  using assms by (simp add: alive_exactly_iff next_generation_nth)

lemma store_both:
  "(s1(NewGrid := n))(Grid := n) = (s2(NewGrid := n))(Grid := n)"
proof
  fix b show "((s1(NewGrid := n))(Grid := n)) b = ((s2(NewGrid := n))(Grid := n)) b"
    by (cases b) simp_all
qed

lemma updateGrid_total:
  assumes "int_dims cfg" "grid \<noteq> newGrid" "shaped cfg (s grid)" "shaped cfg (s newGrid)"
  shows "updateGrid cfg grid newGrid s =
           Inr ((s(newGrid := next_generation_spec (unat (Rows cfg)) (unat (Columns cfg)) (s grid)))
                  (grid := next_generation_spec (unat (Rows cfg)) (unat (Columns cfg)) (s grid)))"
  by (simp add: updateGrid_def and_then_def updateGrid_step_total [OF assms] updateGrid_commit_def)

lemma unat_count: "n \<le> 8 \<Longrightarrow> unat (of_nat n :: Uint8) = n"
  by (simp add: unat_of_nat take_bit_nat_eq_self)

subsection \<open>The example inputs\<close>

lemma settings_5x5_dims [simp]:
  "Rows settings_5x5 = 5" "Columns settings_5x5 = 5" "int_dims settings_5x5"
  by (simp_all add: settings_5x5_def Rows_def Columns_def int_dims_def)

lemma blinker_store_shaped [simp]:
  "shaped settings_5x5 (blinker_store Grid)" "shaped settings_5x5 (blinker_store NewGrid)"
  by (simp_all add: shaped_def blinker_store_def blinker_row_def)

lemma settings_huge_dims:
  "Rows settings_huge = 2147483649" "Columns settings_huge = 1"
  by (simp_all add: settings_huge_def Rows_def Columns_def)

lemma settings_1x1_dims:
  "Rows settings_1x1 = 1" "Columns settings_1x1 = 1" "int_dims settings_1x1"
  by (simp_all add: settings_1x1_def Rows_def Columns_def int_dims_def)

lemma Settings_dims:
  "Rows Settings = 450" "Columns Settings = 800" "int_dims Settings" "window_fits Settings"
  by (simp_all add: Settings_def Rows_def Columns_def int_dims_def window_fits_def)

lemma blinker_column_shaped: "shaped settings_5x5 blinker_column"
  by (simp add: shaped_def blinker_column_def)

lemma blinker_row_alive: "alive_exactly 5 5 blinker_row [(2, 1), (2, 2), (2, 3)]"
  by code_simp

lemma well_formed_initial: "well_formed cfg (initial_store cfg)"
  by (simp add: well_formed_def shaped_initial binary_initial)

lemma started_globals_well_formed: "well_formed Settings (buffers started_globals)"
  by (simp add: started_globals_def well_formed_initial)

lemma settings_5x5_window: "window_fits settings_5x5"
  by (simp add: window_fits_def settings_5x5_def)

lemma blinker_globals_buffers:
  "buffers blinker_globals Grid = blinker_row" "buffers blinker_globals NewGrid = stale_staging"
  by (simp_all add: blinker_globals_def)

lemma blinker_globals_shaped:
  "shaped settings_5x5 (buffers blinker_globals Grid)"
  "shaped settings_5x5 (buffers blinker_globals NewGrid)"
  by (simp_all add: blinker_globals_buffers shaped_def blinker_row_def stale_staging_def)

lemma blinker_row_next: "next_generation_spec 5 5 blinker_row = blinker_column"
  by code_simp

subsection \<open>The rule, case by case\<close>

lemma next_state_alive:
  assumes "g ! i ! j \<noteq> 0"
  shows "(next_state_spec R C g i j = 0) =
           (neighborCount_spec R C g i j < 2 \<or> 3 < neighborCount_spec R C g i j)"
    and "(next_state_spec R C g i j = 1) =
           (neighborCount_spec R C g i j = 2 \<or> neighborCount_spec R C g i j = 3)"
proof -
  define k where "k = neighborCount_spec R C g i j"
  have ns: "next_state_spec R C g i j = (if k < 2 \<or> 3 < k then 0 else 1)"
    using assms by (simp add: next_state_spec_def Let_def k_def)
  show "(next_state_spec R C g i j = 0) =
      (neighborCount_spec R C g i j < 2 \<or> 3 < neighborCount_spec R C g i j)"
    unfolding ns k_def [symmetric] by simp
  show "(next_state_spec R C g i j = 1) =
      (neighborCount_spec R C g i j = 2 \<or> neighborCount_spec R C g i j = 3)"
    unfolding ns k_def [symmetric] by (simp; arith)
qed

lemma next_state_dead:
  assumes "g ! i ! j = 0"
  shows "(next_state_spec R C g i j = 1) = (neighborCount_spec R C g i j = 3)"
    and "(next_state_spec R C g i j = 0) = (neighborCount_spec R C g i j \<noteq> 3)"
  using assms by (simp_all add: next_state_spec_def Let_def)

section \<open>The properties of the specification\<close>

text \<open>
  C1. One step computes every cell of the staging grid by the standard rule. For every
  cell \<open>(r, c)\<close> of the grid, the two loops of \<open>updateGrid\<close> return, and with
  \<open>n\<close> the count that \<open>getNeighborCount\<close> returns for the cell: a cell that is
  alive in \<open>Grid\<close> is dead in \<open>NewGrid\<close> exactly when \<open>n < 2\<close> or \<open>n > 3\<close>
  and alive exactly when \<open>n\<close> is 2 or 3; a cell that is dead in \<open>Grid\<close> is alive
  in \<open>NewGrid\<close> exactly when \<open>n = 3\<close> and dead otherwise.
\<close>

theorem updateGrid_step_rule:
  assumes "int_dims cfg" "shaped cfg (s Grid)" "shaped cfg (s NewGrid)"
    and "r < Rows cfg" "c < Columns cfg"
  shows "\<exists>s' n. updateGrid_step cfg Grid NewGrid s = Inr s' \<and>
           getNeighborCount cfg (s Grid) r c = Inr n \<and>
           (s Grid ! unat r ! unat c \<noteq> 0 \<longrightarrow>
              (s' NewGrid ! unat r ! unat c = 0) = (unat n < 2 \<or> 3 < unat n) \<and>
              (s' NewGrid ! unat r ! unat c = 1) = (unat n = 2 \<or> unat n = 3)) \<and>
           (s Grid ! unat r ! unat c = 0 \<longrightarrow>
              (s' NewGrid ! unat r ! unat c = 1) = (unat n = 3) \<and>
              (s' NewGrid ! unat r ! unat c = 0) = (unat n \<noteq> 3))"
proof -
  let ?R = "unat (Rows cfg)" and ?C = "unat (Columns cfg)"
  let ?k = "neighborCount_spec ?R ?C (s Grid) (unat r) (unat c)"
  let ?s' = "s(NewGrid := next_generation_spec ?R ?C (s Grid))"
  have step: "updateGrid_step cfg Grid NewGrid s = Inr ?s'"
    using assms(1-3) by (intro updateGrid_step_total) simp_all
  have count: "getNeighborCount cfg (s Grid) r c = Inr (of_nat ?k)"
    using assms(4,5,1,2) by (rule getNeighborCount_total)
  have k: "unat (of_nat ?k :: Uint8) = ?k"
    by (intro unat_count neighborCount_spec_le)
  from assms(4,5) have rc: "unat r < ?R" "unat c < ?C"
    by (simp_all add: word_less_nat_alt)
  have cell: "?s' NewGrid ! unat r ! unat c = next_state_spec ?R ?C (s Grid) (unat r) (unat c)"
    using rc by (simp add: next_generation_nth)
  show ?thesis
  proof (intro exI conjI impI)
    show "updateGrid_step cfg Grid NewGrid s = Inr ?s'"
      by (rule step)
    show "getNeighborCount cfg (s Grid) r c = Inr (of_nat ?k)"
      by (rule count)
  next
    assume "s Grid ! unat r ! unat c \<noteq> 0"
    then show "(?s' NewGrid ! unat r ! unat c = 0) =
        (unat (of_nat ?k :: Uint8) < 2 \<or> 3 < unat (of_nat ?k :: Uint8))"
      and "(?s' NewGrid ! unat r ! unat c = 1) =
        (unat (of_nat ?k :: Uint8) = 2 \<or> unat (of_nat ?k :: Uint8) = 3)"
      unfolding cell k by (rule next_state_alive)+
  next
    assume "s Grid ! unat r ! unat c = 0"
    then show "(?s' NewGrid ! unat r ! unat c = 1) = (unat (of_nat ?k :: Uint8) = 3)"
      and "(?s' NewGrid ! unat r ! unat c = 0) = (unat (of_nat ?k :: Uint8) \<noteq> 3)"
      unfolding cell k by (rule next_state_dead)+
  qed
qed

theorem updateGrid_step_rule_witness:
  "int_dims settings_5x5 \<and> shaped settings_5x5 (blinker_store Grid) \<and>
   shaped settings_5x5 (blinker_store NewGrid) \<and> (1 :: cint) < Rows settings_5x5 \<and>
   (2 :: cint) < Columns settings_5x5 \<and>
   (\<exists>s'. updateGrid_step settings_5x5 Grid NewGrid blinker_store = Inr s' \<and>
      getNeighborCount settings_5x5 (blinker_store Grid) 1 2 = Inr 3 \<and>
      blinker_store Grid ! 1 ! 2 = 0 \<and> s' NewGrid ! 1 ! 2 = 1)"
proof -
  have n: "getNeighborCount settings_5x5 (blinker_store Grid) 1 2 = Inr 3"
    by (simp add: getNeighborCount_def getNeighborCount_offset_def and_then_def int_add_def
        uint_mod_def at_def blinker_store_def blinker_row_def)
  have dead: "blinker_store Grid ! unat (1 :: cint) ! unat (2 :: cint) = 0"
    by (simp add: blinker_store_def blinker_row_def)
  have r: "(1 :: cint) < Rows settings_5x5" and c: "(2 :: cint) < Columns settings_5x5"
    by simp_all
  from updateGrid_step_rule [OF settings_5x5_dims(3) blinker_store_shaped r c]
  obtain s' k where s': "updateGrid_step settings_5x5 Grid NewGrid blinker_store = Inr s'"
    and k: "getNeighborCount settings_5x5 (blinker_store Grid) 1 2 = Inr k"
    and born: "blinker_store Grid ! unat (1 :: cint) ! unat (2 :: cint) = 0 \<longrightarrow>
      (s' NewGrid ! unat (1 :: cint) ! unat (2 :: cint) = 1) = (unat k = 3) \<and>
      (s' NewGrid ! unat (1 :: cint) ! unat (2 :: cint) = 0) = (unat k \<noteq> 3)"
    by blast
  from k n have "k = 3"
    by simp
  with born dead have "s' NewGrid ! unat (1 :: cint) ! unat (2 :: cint) = 1"
    by simp
  with s' n dead r c show ?thesis
    by simp
qed

text \<open>
  C2, as stated, for all dimensions of at least 1: it fails where a dimension does not
  fit an \<open>int\<close>. With \<open>2147483649\<close> rows of one column, the cell \<open>(0, 0)\<close> and the
  offset \<open>- 1\<close>, the remainder \<open>(0 - 1 + Rows) % Rows\<close> is \<open>2147483648\<close>, which is
  negative once stored in \<open>int destRow\<close>, and \<open>grid[destRow]\<close> is out of range.
\<close>

theorem getNeighborCount_large_dimension_counterexample:
  "1 \<le> Rows settings_huge \<and> 1 \<le> Columns settings_huge \<and>
   shaped settings_huge (replicate 2147483649 [0]) \<and>
   (0 :: cint) < Rows settings_huge \<and> (0 :: cint) < Columns settings_huge \<and>
   getNeighborCount settings_huge (replicate 2147483649 [0]) 0 0 = Inl OutOfRange"
  by (simp add: settings_huge_dims shaped_def list_all_iff getNeighborCount_def
      getNeighborCount_offset_def and_then_def int_add_def uint_mod_def at_def)

text \<open>
  C2, amended. For all dimensions from 1 to \<open>2147483647\<close> (those an \<open>int\<close> index
  reaches; a cell in range makes both at least 1) and every cell \<open>(row, column)\<close> in
  range, \<open>getNeighborCount\<close> examines the 8 offsets of \<open>{-1, 0, 1} \<times> {-1, 0, 1}\<close>
  other than \<open>(0, 0)\<close>, each coordinate wrapped modulo \<open>Rows\<close> or \<open>Columns\<close> and so
  in range, and returns the number of these offsets whose cell is alive, which is at
  most 8. On a grid of one row or one column the same cell is counted once for each
  offset that wraps to it.
\<close>

theorem getNeighborCount_wraps:
  assumes "int_dims cfg" "shaped cfg g" "row < Rows cfg" "column < Columns cfg"
  shows "length neighbor_offsets = 8 \<and>
         set neighbor_offsets = {- 1, 0, 1} \<times> {- 1, 0, 1} - {(0, 0)} \<and>
         (\<forall>(dr, dc) \<in> set neighbor_offsets.
            wrapped (unat (Rows cfg)) (unat row) dr < length g \<and>
            wrapped (unat (Columns cfg)) (unat column) dc
              < length (g ! wrapped (unat (Rows cfg)) (unat row) dr)) \<and>
         (\<exists>n. getNeighborCount cfg g row column = Inr n \<and>
            unat n = neighborCount_spec (unat (Rows cfg)) (unat (Columns cfg)) g
                       (unat row) (unat column) \<and>
            unat n \<le> 8)"
proof (intro conjI)
  show "length neighbor_offsets = 8"
    by (simp add: neighbor_offsets_def)
  show "set neighbor_offsets = {- 1, 0, 1} \<times> {- 1, 0, 1} - {(0, 0)}"
    by (auto simp: neighbor_offsets_def)
  from assms(3,4) have pos: "0 < unat (Rows cfg)" "0 < unat (Columns cfg)"
    by (simp_all add: word_less_nat_alt)
  from assms(2) have len: "length g = unat (Rows cfg)"
    by (simp add: shaped_def)
  show "\<forall>(dr, dc) \<in> set neighbor_offsets.
      wrapped (unat (Rows cfg)) (unat row) dr < length g \<and>
      wrapped (unat (Columns cfg)) (unat column) dc
        < length (g ! wrapped (unat (Rows cfg)) (unat row) dr)"
  proof (intro ballI, clarify, intro conjI)
    fix dr dc :: int
    show "wrapped (unat (Rows cfg)) (unat row) dr < length g"
      using pos(1) len by (simp add: wrapped_less)
    have "wrapped (unat (Rows cfg)) (unat row) dr < unat (Rows cfg)"
      using pos(1) by (rule wrapped_less)
    with assms(2)
    have "length (g ! wrapped (unat (Rows cfg)) (unat row) dr) = unat (Columns cfg)"
      by (rule shaped_row)
    then show "wrapped (unat (Columns cfg)) (unat column) dc
        < length (g ! wrapped (unat (Rows cfg)) (unat row) dr)"
      using pos(2) by (simp add: wrapped_less)
  qed
  let ?k = "neighborCount_spec (unat (Rows cfg)) (unat (Columns cfg)) g (unat row) (unat column)"
  have "getNeighborCount cfg g row column = Inr (of_nat ?k)"
    using assms(3,4,1,2) by (rule getNeighborCount_total)
  moreover have "?k \<le> 8"
    by (rule neighborCount_spec_le)
  moreover from this have "unat (of_nat ?k :: Uint8) = ?k"
    by (rule unat_count)
  ultimately show "\<exists>n. getNeighborCount cfg g row column = Inr n \<and> unat n = ?k \<and> unat n \<le> 8"
    by simp
qed

theorem getNeighborCount_wraps_witness:
  "int_dims settings_1x1 \<and> shaped settings_1x1 [[1]] \<and> (0 :: cint) < Rows settings_1x1 \<and>
   (0 :: cint) < Columns settings_1x1 \<and>
   getNeighborCount settings_1x1 [[1]] 0 0 = Inr 8 \<and>
   neighborCount_spec 1 1 [[1]] 0 0 = 8"
proof -
  have sh: "shaped settings_1x1 [[1]]"
    by (simp add: shaped_def settings_1x1_dims)
  have r: "(0 :: cint) < Rows settings_1x1" and c: "(0 :: cint) < Columns settings_1x1"
    by (simp_all add: settings_1x1_dims)
  have n: "getNeighborCount settings_1x1 [[1]] 0 0 = Inr 8"
    by (simp add: getNeighborCount_def getNeighborCount_offset_def and_then_def int_add_def
        uint_mod_def at_def settings_1x1_dims)
  from getNeighborCount_wraps [OF settings_1x1_dims(3) sh r c]
  obtain k where "getNeighborCount settings_1x1 [[1]] 0 0 = Inr k"
    and "unat k = neighborCount_spec (unat (Rows settings_1x1)) (unat (Columns settings_1x1))
                    [[1]] (unat (0 :: cint)) (unat (0 :: cint))"
    by blast
  with n have "neighborCount_spec 1 1 [[1]] 0 0 = 8"
    by (simp add: settings_1x1_dims)
  with settings_1x1_dims(3) sh r c n show ?thesis
    by simp
qed

text \<open>
  C3. The step is deterministic: two runs on the same current generation, whatever the
  staging grid held before (it has the configured shape), fill the staging grid with
  the same next generation, and \<open>updateGrid\<close> ends in the same state of both grids.
\<close>

theorem updateGrid_deterministic:
  assumes "int_dims cfg" "shaped cfg (s1 Grid)" "shaped cfg (s1 NewGrid)"
    and "shaped cfg (s2 NewGrid)" "s2 Grid = s1 Grid"
  shows "\<exists>t1 t2 t. updateGrid_step cfg Grid NewGrid s1 = Inr t1 \<and>
           updateGrid_step cfg Grid NewGrid s2 = Inr t2 \<and> t1 NewGrid = t2 NewGrid \<and>
           updateGrid cfg Grid NewGrid s1 = Inr t \<and> updateGrid cfg Grid NewGrid s2 = Inr t"
proof -
  let ?n = "next_generation_spec (unat (Rows cfg)) (unat (Columns cfg)) (s1 Grid)"
  have ne: "Grid \<noteq> NewGrid"
    by simp
  from assms(2,5) have sh2: "shaped cfg (s2 Grid)"
    by simp
  have "updateGrid_step cfg Grid NewGrid s1 = Inr (s1(NewGrid := ?n))"
    using assms(1) ne assms(2,3) by (rule updateGrid_step_total)
  moreover have "updateGrid_step cfg Grid NewGrid s2 = Inr (s2(NewGrid := ?n))"
    using updateGrid_step_total [OF assms(1) ne sh2 assms(4)] assms(5) by simp
  moreover have "updateGrid cfg Grid NewGrid s1 = Inr ((s1(NewGrid := ?n))(Grid := ?n))"
    using assms(1) ne assms(2,3) by (rule updateGrid_total)
  moreover have "updateGrid cfg Grid NewGrid s2 = Inr ((s1(NewGrid := ?n))(Grid := ?n))"
    using updateGrid_total [OF assms(1) ne sh2 assms(4)] assms(5)
    by (simp add: store_both [of s2 _ s1])
  ultimately show ?thesis
    by simp
qed

theorem updateGrid_deterministic_witness:
  "int_dims settings_5x5 \<and> shaped settings_5x5 (blinker_store Grid) \<and>
   shaped settings_5x5 (blinker_store NewGrid) \<and>
   shaped settings_5x5 ((blinker_store(NewGrid := blinker_column)) NewGrid) \<and>
   (blinker_store(NewGrid := blinker_column)) Grid = blinker_store Grid \<and>
   (blinker_store(NewGrid := blinker_column)) NewGrid \<noteq> blinker_store NewGrid \<and>
   updateGrid settings_5x5 Grid NewGrid (blinker_store(NewGrid := blinker_column)) =
     updateGrid settings_5x5 Grid NewGrid blinker_store"
proof -
  have sh: "shaped settings_5x5 ((blinker_store(NewGrid := blinker_column)) NewGrid)"
    by (simp add: blinker_column_shaped)
  have same: "(blinker_store(NewGrid := blinker_column)) Grid = blinker_store Grid"
    by simp
  have differ: "(blinker_store(NewGrid := blinker_column)) NewGrid \<noteq> blinker_store NewGrid"
    by (simp add: blinker_store_def blinker_row_def blinker_column_def)
  from updateGrid_deterministic
    [OF settings_5x5_dims(3) blinker_store_shaped(1) blinker_store_shaped(2) sh same]
  obtain t where "updateGrid settings_5x5 Grid NewGrid blinker_store = Inr t"
    and "updateGrid settings_5x5 Grid NewGrid (blinker_store(NewGrid := blinker_column)) = Inr t"
    by blast
  then have "updateGrid settings_5x5 Grid NewGrid (blinker_store(NewGrid := blinker_column)) =
      updateGrid settings_5x5 Grid NewGrid blinker_store"
    by (simp only:)
  with settings_5x5_dims(3) blinker_store_shaped sh same differ show ?thesis
    by (intro conjI)
qed

text \<open>
  C4. The step is a function of the current generation alone. The two loops of
  \<open>updateGrid\<close> leave \<open>Grid\<close> as it was, and their outcome does not change when
  the staging grid \<open>NewGrid\<close> holds anything else (of the configured shape) at the
  start: nothing the step writes depends on what the staging grid held.
\<close>

theorem updateGrid_step_frame:
  assumes "int_dims cfg" "shaped cfg (s Grid)" "shaped cfg (s NewGrid)" "shaped cfg staging"
  shows "\<exists>s'. updateGrid_step cfg Grid NewGrid s = Inr s' \<and> s' Grid = s Grid \<and>
           updateGrid_step cfg Grid NewGrid (s(NewGrid := staging)) = Inr s'"
proof -
  let ?n = "next_generation_spec (unat (Rows cfg)) (unat (Columns cfg)) (s Grid)"
  have ne: "Grid \<noteq> NewGrid"
    by simp
  have "updateGrid_step cfg Grid NewGrid s = Inr (s(NewGrid := ?n))"
    using assms(1) ne assms(2,3) by (rule updateGrid_step_total)
  moreover have "updateGrid_step cfg Grid NewGrid (s(NewGrid := staging)) = Inr (s(NewGrid := ?n))"
    using updateGrid_step_total [OF assms(1) ne, of "s(NewGrid := staging)"] assms(2,4) by simp
  ultimately show ?thesis
    by simp
qed

theorem updateGrid_step_frame_witness:
  "int_dims settings_5x5 \<and> shaped settings_5x5 (blinker_store Grid) \<and>
   shaped settings_5x5 (blinker_store NewGrid) \<and> shaped settings_5x5 blinker_column \<and>
   (\<exists>s'. updateGrid_step settings_5x5 Grid NewGrid blinker_store = Inr s' \<and>
      s' Grid = blinker_row \<and>
      updateGrid_step settings_5x5 Grid NewGrid (blinker_store(NewGrid := blinker_column)) = Inr s')"
proof -
  have "blinker_store Grid = blinker_row"
    by (simp add: blinker_store_def)
  with updateGrid_step_frame
    [OF settings_5x5_dims(3) blinker_store_shaped(1) blinker_store_shaped(2) blinker_column_shaped]
  have "\<exists>s'. updateGrid_step settings_5x5 Grid NewGrid blinker_store = Inr s' \<and>
      s' Grid = blinker_row \<and>
      updateGrid_step settings_5x5 Grid NewGrid (blinker_store(NewGrid := blinker_column)) = Inr s'"
    by (simp only:)
  with settings_5x5_dims(3) blinker_store_shaped blinker_column_shaped show ?thesis
    by (intro conjI)
qed

text \<open>
  C5. The commit makes the current grid equal to the staging grid. After the loops of
  \<open>updateGrid\<close> and the assignment that ends it, \<open>Grid\<close> is the grid the loops computed
  into \<open>NewGrid\<close>, reading \<open>Grid[r][c]\<close> gives the value computed for that cell, and
  what \<open>Grid\<close> held before the assignment has no effect on what it holds after.
\<close>

theorem updateGrid_commit_current:
  assumes "int_dims cfg" "shaped cfg (s Grid)" "shaped cfg (s NewGrid)"
    and "r < Rows cfg" "c < Columns cfg"
  shows "\<exists>s' t. updateGrid_step cfg Grid NewGrid s = Inr s' \<and>
           updateGrid cfg Grid NewGrid s = Inr t \<and> t = updateGrid_commit Grid NewGrid s' \<and>
           t Grid = s' NewGrid \<and>
           and_then (at (t Grid) r) (\<lambda>line. at line c) = Inr (s' NewGrid ! unat r ! unat c) \<and>
           updateGrid_commit Grid NewGrid (s'(Grid := previous)) Grid = s' NewGrid"
proof -
  let ?n = "next_generation_spec (unat (Rows cfg)) (unat (Columns cfg)) (s Grid)"
  have ne: "Grid \<noteq> NewGrid"
    by simp
  from assms(1) have dims: "Rows cfg \<le> 0x7FFFFFFF" "Columns cfg \<le> 0x7FFFFFFF"
    by (simp_all add: int_dims_def)
  have step: "updateGrid_step cfg Grid NewGrid s = Inr (s(NewGrid := ?n))"
    using assms(1) ne assms(2,3) by (rule updateGrid_step_total)
  have sh: "shaped cfg ?n"
    by (rule shaped_next_generation)
  then have len: "length ?n = unat (Rows cfg)"
    by (simp add: shaped_def)
  from assms(4) have "unat r < unat (Rows cfg)"
    by (simp add: word_less_nat_alt)
  with sh have len': "length (?n ! unat r) = unat (Columns cfg)"
    by (rule shaped_row)
  have read: "and_then (at ?n r) (\<lambda>line. at line c) = Inr (?n ! unat r ! unat c)"
    by (simp add: and_then_def at_in_range [OF assms(4) dims(1) len]
        at_in_range [OF assms(5) dims(2) len'])
  show ?thesis
    using step read by (simp add: updateGrid_def and_then_def updateGrid_commit_def)
qed

theorem updateGrid_commit_current_witness:
  "int_dims settings_5x5 \<and> shaped settings_5x5 (blinker_store Grid) \<and>
   shaped settings_5x5 (blinker_store NewGrid) \<and> (1 :: cint) < Rows settings_5x5 \<and>
   (2 :: cint) < Columns settings_5x5 \<and>
   (\<exists>s' t. updateGrid_step settings_5x5 Grid NewGrid blinker_store = Inr s' \<and>
      updateGrid settings_5x5 Grid NewGrid blinker_store = Inr t \<and>
      t Grid = s' NewGrid \<and>
      and_then (at (t Grid) 1) (\<lambda>line. at line 2) = Inr (s' NewGrid ! unat (1 :: cint) ! unat (2 :: cint)))"
proof -
  have r: "(1 :: cint) < Rows settings_5x5" and c: "(2 :: cint) < Columns settings_5x5"
    by simp_all
  from updateGrid_commit_current
    [OF settings_5x5_dims(3) blinker_store_shaped(1) blinker_store_shaped(2) r c]
  have "\<exists>s' t. updateGrid_step settings_5x5 Grid NewGrid blinker_store = Inr s' \<and>
      updateGrid settings_5x5 Grid NewGrid blinker_store = Inr t \<and>
      t Grid = s' NewGrid \<and>
      and_then (at (t Grid) 1) (\<lambda>line. at line 2) = Inr (s' NewGrid ! unat (1 :: cint) ! unat (2 :: cint))"
    by blast
  with settings_5x5_dims(3) blinker_store_shaped r c show ?thesis
    by (intro conjI)
qed



text \<open>
  C10. After \<open>updateGrid\<close> the staging grid holds a full copy of the generation just
  committed. The loops compute the next generation of \<open>Grid\<close> into \<open>NewGrid\<close>, the
  assignment copies it into \<open>Grid\<close> and leaves \<open>NewGrid\<close> as the loops left it: both
  grids hold the generation the step computed, cell for cell, and nothing of what
  \<open>NewGrid\<close> held before. So it is after every frame in which \<open>SDL_AppIterate\<close> runs
  the simulation: its grids are those \<open>updateGrid\<close> returns.
\<close>

theorem updateGrid_leaves_copy:
  assumes "int_dims cfg" "shaped cfg (buffers g Grid)" "shaped cfg (buffers g NewGrid)"
  shows "\<exists>s' t. updateGrid_step cfg Grid NewGrid (buffers g) = Inr s' \<and>
           s' NewGrid = next_generation_spec (unat (Rows cfg)) (unat (Columns cfg)) (buffers g Grid) \<and>
           updateGrid cfg Grid NewGrid (buffers g) = Inr t \<and>
           t NewGrid = s' NewGrid \<and> t Grid = s' NewGrid \<and> t NewGrid = t Grid \<and>
           (window_fits cfg \<and> runSimulation app \<longrightarrow>
              (\<exists>frame g'. SDL_AppIterate cfg (app, g) = Inr (status app, frame, app, g') \<and>
                 buffers g' = t \<and> buffers g' NewGrid = buffers g' Grid))"
proof -
  let ?n = "next_generation_spec (unat (Rows cfg)) (unat (Columns cfg)) (buffers g Grid)"
  define s' where "s' = (buffers g)(NewGrid := ?n)"
  define t where "t = ((buffers g)(NewGrid := ?n))(Grid := ?n)"
  have ne: "Grid \<noteq> NewGrid"
    by simp
  have step: "updateGrid_step cfg Grid NewGrid (buffers g) = Inr s'"
    unfolding s'_def using assms(1) ne assms(2,3) by (rule updateGrid_step_total)
  have upd: "updateGrid cfg Grid NewGrid (buffers g) = Inr t"
    unfolding t_def using assms(1) ne assms(2,3) by (rule updateGrid_total)
  have vals: "s' NewGrid = ?n" "t NewGrid = ?n" "t Grid = ?n"
    by (simp_all add: s'_def t_def)
  have iter: "window_fits cfg \<and> runSimulation app \<longrightarrow>
      (\<exists>frame g'. SDL_AppIterate cfg (app, g) = Inr (status app, frame, app, g') \<and>
         buffers g' = t \<and> buffers g' NewGrid = buffers g' Grid)"
  proof
    assume run: "window_fits cfg \<and> runSimulation app"
    with assms(2) obtain frame where "drawGrid cfg (buffers g Grid) = Inr frame"
      using drawGrid_total by blast
    with run upd vals
    show "\<exists>frame g'. SDL_AppIterate cfg (app, g) = Inr (status app, frame, app, g') \<and>
        buffers g' = t \<and> buffers g' NewGrid = buffers g' Grid"
      by (simp add: SDL_AppIterate_def and_then_def)
  qed
  have "updateGrid_step cfg Grid NewGrid (buffers g) = Inr s' \<and>
      s' NewGrid = ?n \<and> updateGrid cfg Grid NewGrid (buffers g) = Inr t \<and>
      t NewGrid = s' NewGrid \<and> t Grid = s' NewGrid \<and> t NewGrid = t Grid \<and>
      (window_fits cfg \<and> runSimulation app \<longrightarrow>
         (\<exists>frame g'. SDL_AppIterate cfg (app, g) = Inr (status app, frame, app, g') \<and>
            buffers g' = t \<and> buffers g' NewGrid = buffers g' Grid))"
    using step upd vals iter by (intro conjI) simp_all
  then show ?thesis
    by (intro exI)
qed

theorem updateGrid_leaves_copy_witness:
  "int_dims settings_5x5 \<and> shaped settings_5x5 (buffers blinker_globals Grid) \<and>
   shaped settings_5x5 (buffers blinker_globals NewGrid) \<and>
   window_fits settings_5x5 \<and> runSimulation started_app \<and>
   buffers blinker_globals Grid = blinker_row \<and>
   buffers blinker_globals NewGrid = stale_staging \<and>
   stale_staging \<noteq> blinker_row \<and> stale_staging \<noteq> blinker_column \<and>
   blinker_row \<noteq> blinker_column \<and>
   (\<exists>t. updateGrid settings_5x5 Grid NewGrid (buffers blinker_globals) = Inr t \<and>
      t NewGrid = blinker_column \<and> t Grid = blinker_column) \<and>
   (\<exists>frame g'. SDL_AppIterate settings_5x5 (started_app, blinker_globals) =
      Inr (status started_app, frame, started_app, g') \<and>
      buffers g' NewGrid = blinker_column \<and> buffers g' Grid = blinker_column)"
proof -
  have run: "runSimulation started_app"
    by (simp add: started_app_def)
  have differ: "stale_staging \<noteq> blinker_row" "stale_staging \<noteq> blinker_column"
    "blinker_row \<noteq> blinker_column"
    by (simp_all add: stale_staging_def blinker_row_def blinker_column_def)
  have computed: "next_generation_spec (unat (Rows settings_5x5)) (unat (Columns settings_5x5))
      (buffers blinker_globals Grid) = blinker_column"
    by (simp add: blinker_globals_buffers blinker_row_next)
  from updateGrid_leaves_copy [OF settings_5x5_dims(3) blinker_globals_shaped, of started_app]
  obtain s' t where s': "s' NewGrid = next_generation_spec (unat (Rows settings_5x5))
        (unat (Columns settings_5x5)) (buffers blinker_globals Grid)"
    and t: "updateGrid settings_5x5 Grid NewGrid (buffers blinker_globals) = Inr t"
      "t NewGrid = s' NewGrid" "t Grid = s' NewGrid"
    and iter: "window_fits settings_5x5 \<and> runSimulation started_app \<longrightarrow>
      (\<exists>frame g'. SDL_AppIterate settings_5x5 (started_app, blinker_globals) =
         Inr (status started_app, frame, started_app, g') \<and>
         buffers g' = t \<and> buffers g' NewGrid = buffers g' Grid)"
    by blast
  from s' t(2,3) computed have copy: "t NewGrid = blinker_column" "t Grid = blinker_column"
    by simp_all
  from iter settings_5x5_window run obtain frame g' where
    "SDL_AppIterate settings_5x5 (started_app, blinker_globals) =
       Inr (status started_app, frame, started_app, g')" "buffers g' = t"
    by blast
  with copy have "\<exists>frame g'. SDL_AppIterate settings_5x5 (started_app, blinker_globals) =
      Inr (status started_app, frame, started_app, g') \<and>
      buffers g' NewGrid = blinker_column \<and> buffers g' Grid = blinker_column"
    by auto
  moreover from t(1) copy
  have "\<exists>t. updateGrid settings_5x5 Grid NewGrid (buffers blinker_globals) = Inr t \<and>
      t NewGrid = blinker_column \<and> t Grid = blinker_column"
    by blast
  ultimately show ?thesis
    using settings_5x5_dims(3) blinker_globals_shaped settings_5x5_window run
      blinker_globals_buffers differ
    by (intro conjI)
qed

text \<open>
  C7. The blinker oscillates. On a grid of at least 4 rows and 4 columns, with the
  three cells of the line inside the grid, a current generation whose only alive cells
  are the horizontal line \<open>(r, c - 1)\<close>, \<open>(r, c)\<close>, \<open>(r, c + 1)\<close> is taken by
  \<open>updateGrid\<close> to a generation whose only alive cells are the vertical line
  \<open>(r - 1, c)\<close>, \<open>(r, c)\<close>, \<open>(r + 1, c)\<close>, and by a second \<open>updateGrid\<close> back to the
  horizontal line.
\<close>

theorem updateGrid_blinker:
  assumes "int_dims cfg" "4 \<le> Rows cfg" "4 \<le> Columns cfg"
    and "shaped cfg (s Grid)" "shaped cfg (s NewGrid)"
    and "1 \<le> r" "r + 1 < unat (Rows cfg)" "1 \<le> c" "c + 1 < unat (Columns cfg)"
    and "alive_exactly (unat (Rows cfg)) (unat (Columns cfg)) (s Grid)
           [(r, c - 1), (r, c), (r, c + 1)]"
  shows "\<exists>t u. updateGrid cfg Grid NewGrid s = Inr t \<and>
           alive_exactly (unat (Rows cfg)) (unat (Columns cfg)) (t Grid)
             [(r - 1, c), (r, c), (r + 1, c)] \<and>
           updateGrid cfg Grid NewGrid t = Inr u \<and>
           alive_exactly (unat (Rows cfg)) (unat (Columns cfg)) (u Grid)
             [(r, c - 1), (r, c), (r, c + 1)]"
proof -
  let ?R = "unat (Rows cfg)" and ?C = "unat (Columns cfg)"
  from assms(6,8) obtain r' c' where rc: "r = Suc r'" "c = Suc c'"
    by (metis One_nat_def Suc_le_D)
  from assms(2,3) have big: "4 \<le> ?R" "4 \<le> ?C"
    by (simp_all add: word_le_nat_alt)
  from assms(7,9) rc have fit: "Suc (Suc r') < ?R" "Suc (Suc c') < ?C"
    by simp_all
  let ?row = "[(Suc r', c'), (Suc r', Suc c'), (Suc r', Suc (Suc c'))]"
  let ?column = "[(r', Suc c'), (Suc r', Suc c'), (Suc (Suc r'), Suc c')]"
  let ?n1 = "next_generation_spec ?R ?C (s Grid)"
  define t where "t = (s(NewGrid := ?n1))(Grid := ?n1)"
  define u where "u = (t(NewGrid := next_generation_spec ?R ?C (t Grid)))
                        (Grid := next_generation_spec ?R ?C (t Grid))"
  have ne: "Grid \<noteq> NewGrid"
    by simp
  have t: "t Grid = ?n1" "t NewGrid = ?n1"
    by (simp_all add: t_def)
  have u: "u Grid = next_generation_spec ?R ?C ?n1"
    by (simp add: u_def t)
  from assms(10) rc have row: "alive_exactly ?R ?C (s Grid) ?row"
    by simp
  have column: "alive_exactly ?R ?C ?n1 ?column"
  proof (rule next_generation_alive)
    fix i j assume "i < ?R" "j < ?C"
    then show "next_state_spec ?R ?C (s Grid) i j = (if (i, j) \<in> set ?column then 1 else 0)"
      using big(2) fit row by (rule next_state_row)
  qed
  have again: "alive_exactly ?R ?C (next_generation_spec ?R ?C ?n1) ?row"
  proof (rule next_generation_alive)
    fix i j assume "i < ?R" "j < ?C"
    then show "next_state_spec ?R ?C ?n1 i j = (if (i, j) \<in> set ?row then 1 else 0)"
      using big(1) fit column by (rule next_state_column)
  qed
  have upd1: "updateGrid cfg Grid NewGrid s = Inr t"
    unfolding t_def using assms(1) ne assms(4,5) by (rule updateGrid_total)
  have sh: "shaped cfg (t Grid)" "shaped cfg (t NewGrid)"
    by (simp_all add: t shaped_next_generation)
  have upd2: "updateGrid cfg Grid NewGrid t = Inr u"
    unfolding u_def using assms(1) ne sh by (rule updateGrid_total)
  have "alive_exactly ?R ?C (t Grid) [(r - 1, c), (r, c), (r + 1, c)]"
    using column rc by (simp add: t)
  moreover have "alive_exactly ?R ?C (u Grid) [(r, c - 1), (r, c), (r, c + 1)]"
    using again rc by (simp add: u)
  ultimately show ?thesis
    using upd1 upd2 by blast
qed

theorem updateGrid_blinker_witness:
  "int_dims settings_5x5 \<and> 4 \<le> Rows settings_5x5 \<and> 4 \<le> Columns settings_5x5 \<and>
   shaped settings_5x5 (blinker_store Grid) \<and> shaped settings_5x5 (blinker_store NewGrid) \<and>
   (1 :: nat) \<le> 2 \<and> (2 :: nat) + 1 < unat (Rows settings_5x5) \<and>
   (2 :: nat) + 1 < unat (Columns settings_5x5) \<and>
   alive_exactly 5 5 (blinker_store Grid) [(2, 1), (2, 2), (2, 3)] \<and>
   (\<exists>t u. updateGrid settings_5x5 Grid NewGrid blinker_store = Inr t \<and>
      alive_exactly 5 5 (t Grid) [(1, 2), (2, 2), (3, 2)] \<and>
      updateGrid settings_5x5 Grid NewGrid t = Inr u \<and>
      alive_exactly 5 5 (u Grid) [(2, 1), (2, 2), (2, 3)])"
proof -
  have big: "4 \<le> Rows settings_5x5" "4 \<le> Columns settings_5x5"
    by simp_all
  have fit: "(1 :: nat) \<le> 2" "(2 :: nat) + 1 < unat (Rows settings_5x5)"
    "(2 :: nat) + 1 < unat (Columns settings_5x5)"
    by simp_all
  have alive: "alive_exactly (unat (Rows settings_5x5)) (unat (Columns settings_5x5))
      (blinker_store Grid) [(2, 2 - 1), (2, 2), (2, 2 + 1)]"
    using blinker_row_alive by (simp add: blinker_store_def)
  from updateGrid_blinker [OF settings_5x5_dims(3) big blinker_store_shaped
      fit(1,2) fit(1,3) alive]
  have "\<exists>t u. updateGrid settings_5x5 Grid NewGrid blinker_store = Inr t \<and>
      alive_exactly 5 5 (t Grid) [(1, 2), (2, 2), (3, 2)] \<and>
      updateGrid settings_5x5 Grid NewGrid t = Inr u \<and>
      alive_exactly 5 5 (u Grid) [(2, 1), (2, 2), (2, 3)]"
    by simp
  moreover have "alive_exactly 5 5 (blinker_store Grid) [(2, 1), (2, 2), (2, 3)]"
    using blinker_row_alive by (simp add: blinker_store_def)
  ultimately show ?thesis
    using settings_5x5_dims(3) big blinker_store_shaped fit by (intro conjI)
qed

text \<open>
  C8. Every cell of both grids, at every coordinate of the configured dimensions, holds
  0 or 1, and every operation keeps it so: the grids as they are constructed, the seed
  (\<open>initGrid\<close> on \<open>Grid\<close>), the step (the loops of \<open>updateGrid\<close>), the commit (the
  assignment that ends it) and \<open>updateGrid\<close> as a whole.
\<close>

theorem grids_stay_binary:
  assumes "int_dims cfg" "well_formed cfg (buffers g)"
  shows "well_formed cfg (initial_store cfg) \<and>
         (\<exists>g'. initGrid cfg Grid g = Inr g' \<and> well_formed cfg (buffers g')) \<and>
         (\<exists>s'. updateGrid_step cfg Grid NewGrid (buffers g) = Inr s' \<and> well_formed cfg s') \<and>
         well_formed cfg (updateGrid_commit Grid NewGrid (buffers g)) \<and>
         (\<exists>t. updateGrid cfg Grid NewGrid (buffers g) = Inr t \<and> well_formed cfg t)"
proof (intro conjI)
  let ?R = "unat (Rows cfg)" and ?C = "unat (Columns cfg)"
  from assms(2) have sh: "shaped cfg (buffers g Grid)" "shaped cfg (buffers g NewGrid)"
    and bin: "binary (buffers g Grid)" "binary (buffers g NewGrid)"
    by (simp_all add: well_formed_def)
  have ne: "Grid \<noteq> NewGrid"
    by simp
  show "well_formed cfg (initial_store cfg)"
    by (rule well_formed_initial)
  show "\<exists>g'. initGrid cfg Grid g = Inr g' \<and> well_formed cfg (buffers g')"
    using sh(2) bin(2)
    by (simp add: initGrid_total [OF assms(1) sh(1)] well_formed_def shaped_table binary_seeded)
  show "\<exists>s'. updateGrid_step cfg Grid NewGrid (buffers g) = Inr s' \<and> well_formed cfg s'"
    using sh(1) bin(1)
    by (simp add: updateGrid_step_total [OF assms(1) ne sh] well_formed_def
        shaped_next_generation binary_next_generation)
  show "well_formed cfg (updateGrid_commit Grid NewGrid (buffers g))"
    using sh(2) bin(2) by (simp add: updateGrid_commit_def well_formed_def)
  show "\<exists>t. updateGrid cfg Grid NewGrid (buffers g) = Inr t \<and> well_formed cfg t"
    by (simp add: updateGrid_total [OF assms(1) ne sh] well_formed_def
        shaped_next_generation binary_next_generation)
qed

theorem grids_stay_binary_witness:
  "int_dims Settings \<and> well_formed Settings (buffers started_globals) \<and>
   (\<exists>g'. initGrid Settings Grid started_globals = Inr g' \<and> well_formed Settings (buffers g')) \<and>
   (\<exists>t. updateGrid Settings Grid NewGrid (buffers started_globals) = Inr t \<and>
      well_formed Settings t)"
proof -
  from grids_stay_binary [OF Settings_dims(3) started_globals_well_formed]
  have "\<exists>g'. initGrid Settings Grid started_globals = Inr g' \<and> well_formed Settings (buffers g')"
    and "\<exists>t. updateGrid Settings Grid NewGrid (buffers started_globals) = Inr t \<and>
      well_formed Settings t"
    by blast+
  with Settings_dims(3) started_globals_well_formed show ?thesis
    by (intro conjI)
qed

text \<open>
  C9. The toggle-run event (the space key) flips \<open>runSimulation\<close> and changes nothing
  else: the rest of \<open>Application\<close>, both grids and the random source stay as they are.
  The reseed-request event (the R key) runs \<open>initGrid\<close> on \<open>Grid\<close> whatever
  \<open>runSimulation\<close> is: \<open>Grid\<close> is overwritten with the seed, \<open>NewGrid\<close> and
  \<open>Application\<close> stay as they are.
\<close>

theorem SDL_AppEvent_toggle_and_reseed:
  assumes "int_dims cfg" "shaped cfg (buffers g Grid)"
  shows "SDL_AppEvent cfg (app, g) (SDL_EVENT_KEY_DOWN SDLK_SPACE) =
           Inr (SDL_APP_CONTINUE, app\<lparr>runSimulation := \<not> runSimulation app\<rparr>, g) \<and>
         (\<exists>g'. initGrid cfg Grid g = Inr g' \<and>
            SDL_AppEvent cfg (app\<lparr>runSimulation := flag\<rparr>, g) (SDL_EVENT_KEY_DOWN SDLK_R) =
              Inr (SDL_APP_CONTINUE, app\<lparr>runSimulation := flag\<rparr>, g') \<and>
            buffers g' NewGrid = buffers g NewGrid \<and>
            buffers g' Grid = table (unat (Rows cfg)) (unat (Columns cfg))
                                (seed_cell (rand_src g) (unat (Columns cfg))))"
  by (simp add: initGrid_total [OF assms] and_then_def)

theorem SDL_AppEvent_toggle_and_reseed_witness:
  "int_dims Settings \<and> shaped Settings (buffers started_globals Grid) \<and>
   SDL_AppEvent Settings (started_app, started_globals) (SDL_EVENT_KEY_DOWN SDLK_SPACE) =
     Inr (SDL_APP_CONTINUE, started_app\<lparr>runSimulation := False\<rparr>, started_globals) \<and>
   (\<exists>g'. initGrid Settings Grid started_globals = Inr g' \<and>
      SDL_AppEvent Settings (started_app\<lparr>runSimulation := False\<rparr>, started_globals)
        (SDL_EVENT_KEY_DOWN SDLK_R) =
        Inr (SDL_APP_CONTINUE, started_app\<lparr>runSimulation := False\<rparr>, g') \<and>
      buffers g' NewGrid = buffers started_globals NewGrid)"
proof -
  have sh: "shaped Settings (buffers started_globals Grid)"
    by (simp add: started_globals_def shaped_initial)
  have run: "(\<not> runSimulation started_app) = False"
    by (simp add: started_app_def)
  from SDL_AppEvent_toggle_and_reseed [OF Settings_dims(3) sh, of started_app False]
  have "SDL_AppEvent Settings (started_app, started_globals) (SDL_EVENT_KEY_DOWN SDLK_SPACE) =
      Inr (SDL_APP_CONTINUE, started_app\<lparr>runSimulation := False\<rparr>, started_globals)"
    and "\<exists>g'. initGrid Settings Grid started_globals = Inr g' \<and>
      SDL_AppEvent Settings (started_app\<lparr>runSimulation := False\<rparr>, started_globals)
        (SDL_EVENT_KEY_DOWN SDLK_R) =
        Inr (SDL_APP_CONTINUE, started_app\<lparr>runSimulation := False\<rparr>, g') \<and>
      buffers g' NewGrid = buffers started_globals NewGrid"
    unfolding run by blast+
  with Settings_dims(3) sh show ?thesis
    by (intro conjI)
qed

end
